theory Spec2Isabelle
  imports Complex_Main
begin

section \<open>Python values and built-ins used by the parsers\<close>

text \<open>
  The exceptions the modelled statements can raise: \<open>None.strip()\<close> is an
  AttributeError, \<open>float(s)\<close> on an unparsable string a ValueError, \<open>d[k]\<close> on a
  missing key a KeyError, \<open>parts[i]\<close> out of range an IndexError.
\<close>

datatype error = AttributeError | ValueError | KeyError | IndexError

text \<open>
  A Python float. \<open>Finite r\<close> is a finite double denoting the real \<open>r\<close>; the only
  operations the code applies to floats are parsing and comparison, so the two zeros
  are not told apart.
\<close>

datatype pyfloat = Finite real | PosInf | NegInf | NaN

text \<open>Python's \<open>==\<close> on floats: NaN is unequal to every float, itself included.\<close>

definition float_eq :: "pyfloat \<Rightarrow> pyfloat \<Rightarrow> bool" where
  "float_eq a b = (a \<noteq> NaN \<and> b \<noteq> NaN \<and> a = b)"

text \<open>
  The built-in \<open>float(s)\<close> on a string is not part of the repository; it is a
  parameter of every function that calls it. \<open>None\<close> stands for the ValueError.
\<close>

type_synonym float_parser = "string \<Rightarrow> pyfloat option"

text \<open>
  \<open>str.isspace\<close> on the code points below 256 (a \<open>char\<close> is read as one code
  point): tab to carriage return, the four separators 28 to 31, space, NEL and the
  no-break space.
\<close>

definition isspace :: "char \<Rightarrow> bool" where
  "isspace c = (let n = (of_char c :: nat)
                in (9 \<le> n \<and> n \<le> 13) \<or> (28 \<le> n \<and> n \<le> 32) \<or> n = 133 \<or> n = 160)"

text \<open>\<open>s.strip()\<close>: leading and trailing whitespace removed.\<close>

definition strip :: "string \<Rightarrow> string" where
  "strip s = rev (dropWhile isspace (rev (dropWhile isspace s)))"

text \<open>
  \<open>s.split()\<close>: the maximal runs of non-whitespace characters, in order. \<open>cur\<close> is
  the token being read.
\<close>

fun split_aux :: "string \<Rightarrow> string \<Rightarrow> string list" where
  "split_aux cur [] = (if cur = [] then [] else [cur])"
| "split_aux cur (c # cs) =
     (if isspace c then (if cur = [] then split_aux [] cs else cur # split_aux [] cs)
      else split_aux (cur @ [c]) cs)"

definition split :: "string \<Rightarrow> string list" where
  "split s = split_aux [] s"

subsection \<open>Dictionaries\<close>

text \<open>
  A Python dict keeps insertion order, and assigning to a key that is present keeps
  the key's position: a list of pairs with pairwise distinct keys, read with
  \<^const>\<open>map_of\<close>.
\<close>

fun dict_set :: "('k \<times> 'v) list \<Rightarrow> 'k \<Rightarrow> 'v \<Rightarrow> ('k \<times> 'v) list" where
  "dict_set [] k v = [(k, v)]"
| "dict_set ((k', v') # d) k v =
     (if k' = k then (k, v) # d else (k', v') # dict_set d k v)"

text \<open>\<open>k in d\<close>, \<open>d.get(k, default)\<close> and \<open>d[k]\<close>.\<close>

definition dict_contains :: "('k \<times> 'v) list \<Rightarrow> 'k \<Rightarrow> bool" where
  "dict_contains d k = (k \<in> set (map fst d))"

definition dict_get :: "('k \<times> 'v) list \<Rightarrow> 'k \<Rightarrow> 'v \<Rightarrow> 'v" where
  "dict_get d k dflt = (case map_of d k of None \<Rightarrow> dflt | Some v \<Rightarrow> v)"

definition dict_index :: "('k \<times> 'v) list \<Rightarrow> 'k \<Rightarrow> error + 'v" where
  "dict_index d k = (case map_of d k of None \<Rightarrow> Inl KeyError | Some v \<Rightarrow> Inr v)"

section \<open>cad_parser_xml\<close>

text \<open>
  An \<open>ET.Element\<close>: its tag, its text (\<open>None\<close> for an element without character
  data before its first child) and its child elements in document order.
\<close>

datatype element = Element (tag: string) (etext: "string option") (children: "element list")

text \<open>
  What \<open>extract_features\<close> stores under an attribute name: a float, the dict
  \<open>{'x': .., 'y': .., 'z': ..}\<close> of \<open>parse_point\<close>, or a string.
\<close>

datatype "value" = Number pyfloat | Point pyfloat pyfloat pyfloat | Text string

type_synonym detail = "(string \<times> value) list"
type_synonym features = "(string \<times> detail list) list"

definition is_number :: "float_parser \<Rightarrow> string \<Rightarrow> bool" where
  "is_number fl s = (case fl s of Some _ \<Rightarrow> True | None \<Rightarrow> False)"

definition is_point :: "float_parser \<Rightarrow> string \<Rightarrow> bool" where
  "is_point fl txt = (let parts = split txt in length parts = 3 \<and> list_all (is_number fl) parts)"

text \<open>
  \<open>parse_point\<close> evaluates \<open>float(parts[0])\<close>, \<open>float(parts[1])\<close>, \<open>float(parts[2])\<close>
  in this order; each index can be out of range and each conversion can fail.
\<close>

definition parse_point :: "float_parser \<Rightarrow> string \<Rightarrow> error + value" where
  "parse_point fl txt =
     (case split txt of
        [] \<Rightarrow> Inl IndexError
      | p0 # r0 \<Rightarrow>
          (case fl p0 of
             None \<Rightarrow> Inl ValueError
           | Some x \<Rightarrow>
               (case r0 of
                  [] \<Rightarrow> Inl IndexError
                | p1 # r1 \<Rightarrow>
                    (case fl p1 of
                       None \<Rightarrow> Inl ValueError
                     | Some y \<Rightarrow>
                         (case r1 of
                            [] \<Rightarrow> Inl IndexError
                          | p2 # r2 \<Rightarrow>
                              (case fl p2 of
                                 None \<Rightarrow> Inl ValueError
                               | Some z \<Rightarrow> Inr (Point x y z)))))))"

text \<open>
  Lines 77 to 84 of \<open>extract_features\<close>, for an attribute whose text is the string
  \<open>raw\<close>: the value assigned to \<open>feature_details[sub_child.tag]\<close> by whichever of the
  three branches runs.
\<close>

definition classify :: "float_parser \<Rightarrow> string \<Rightarrow> error + value" where
  "classify fl raw =
     (let sub_child_text = strip raw
      in if is_number fl sub_child_text then
           (case fl sub_child_text of None \<Rightarrow> Inl ValueError | Some f \<Rightarrow> Inr (Number f))
         else if is_point fl sub_child_text then parse_point fl sub_child_text
         else Inr (Text sub_child_text))"

text \<open>The inner loop over the attributes of one feature; \<open>.text.strip()\<close> on a
  missing text raises.\<close>

fun extract_details :: "float_parser \<Rightarrow> element list \<Rightarrow> detail \<Rightarrow> error + detail" where
  "extract_details fl [] feature_details = Inr feature_details"
| "extract_details fl (sub_child # rest) feature_details =
     (case etext sub_child of
        None \<Rightarrow> Inl AttributeError
      | Some raw \<Rightarrow>
          (case classify fl raw of
             Inl e \<Rightarrow> Inl e
           | Inr v \<Rightarrow> extract_details fl rest (dict_set feature_details (tag sub_child) v)))"

text \<open>The outer loop over the features; \<open>features[child.tag].append(..)\<close> reads the
  list stored under the tag and extends it in place.\<close>

fun features_loop :: "float_parser \<Rightarrow> element list \<Rightarrow> features \<Rightarrow> error + features" where
  "features_loop fl [] features = Inr features"
| "features_loop fl (child # rest) features =
     (case extract_details fl (children child) [] of
        Inl e \<Rightarrow> Inl e
      | Inr feature_details \<Rightarrow>
          (let features1 = (if \<not> dict_contains features (tag child)
                            then dict_set features (tag child) [] else features)
           in case dict_index features1 (tag child) of
                Inl e \<Rightarrow> Inl e
              | Inr l \<Rightarrow> features_loop fl rest
                          (dict_set features1 (tag child) (l @ [feature_details]))))"

definition extract_features :: "float_parser \<Rightarrow> element \<Rightarrow> error + features" where
  "extract_features fl doc = features_loop fl (children doc) []"

text \<open>
  The classification order as the specification words it: a number if the trimmed
  text parses as one; else a point if it has exactly three whitespace-separated
  tokens that all parse; else the trimmed text.
\<close>

definition classify_spec :: "float_parser \<Rightarrow> string \<Rightarrow> value" where
  "classify_spec fl raw =
     (let t = strip raw
      in case fl t of
           Some f \<Rightarrow> Number f
         | None \<Rightarrow>
             (case split t of
                [a, b, c] \<Rightarrow>
                  (case (fl a, fl b, fl c) of
                     (Some x, Some y, Some z) \<Rightarrow> Point x y z
                   | _ \<Rightarrow> Text t)
              | _ \<Rightarrow> Text t))"


text \<open>
  Python's \<open>==\<close> on the three kinds of value. Floats compare as floats, strings
  by content, values of different kinds are unequal, and two point dicts compare
  coordinate by coordinate. For a coordinate the dict comparison first asks whether
  the two floats are one and the same object, and only then compares them as
  floats. The values of the model carry no object identity, so \<open>value_eq\<close> compares
  the coordinates as floats only. This is what Python computes whenever the two
  points do not share a NaN object; it differs from Python exactly on two points
  that hold the same NaN object at the same coordinate, which Python takes for
  equal. The theorems below that depend on \<open>value_eq\<close> are therefore stated for
  records whose points have no NaN coordinate (\<open>points_nan_free\<close>, or the
  stronger \<open>features_nan_free\<close>), where the two agree whatever objects are
  shared.
\<close>

fun value_eq :: "value \<Rightarrow> value \<Rightarrow> bool" where
  "value_eq (Number a) (Number b) = float_eq a b"
| "value_eq (Point x y z) (Point x' y' z') = (float_eq x x' \<and> float_eq y y' \<and> float_eq z z')"
| "value_eq (Text s) (Text t) = (s = t)"
| "value_eq _ _ = False"

text \<open>
  The dicts \<open>{'old': .., 'new': ..}\<close> and \<open>{'name': .., 'fields': ..}\<close>, and the
  result of \<open>compare_features\<close> with its three keys. The defaults \<open>'N/A'\<close> and
  \<open>'Unknown'\<close> are Python strings, so \<open>old\<close> and \<open>name\<close> hold values.
\<close>

record change =
  old :: "value"
  new :: "value"

record modification =
  name :: "value"
  fields' :: "(string \<times> change) list"

record differences =
  additions :: "(string \<times> detail list) list"
  modifications :: "(string \<times> modification list) list"
  removals :: "(string \<times> detail list) list"

text \<open>
  Lines 161 to 163: the loop over \<open>cad2_detail.items()\<close>. The test
  \<open>key not in cad1_detail or cad1_detail[key] != value\<close> reads \<open>cad1_detail[key]\<close>
  only when the key is present.
\<close>

fun changed_fields_loop ::
  "detail \<Rightarrow> (string \<times> value) list \<Rightarrow> (string \<times> change) list \<Rightarrow> (string \<times> change) list" where
  "changed_fields_loop cad1_detail [] changed_fields = changed_fields"
| "changed_fields_loop cad1_detail ((key, val) # items) changed_fields =
     changed_fields_loop cad1_detail items
       (if (case map_of cad1_detail key of None \<Rightarrow> True | Some v1 \<Rightarrow> \<not> value_eq v1 val)
        then dict_set changed_fields key
               \<lparr>old = dict_get cad1_detail key (Text ''N/A''), new = val\<rparr>
        else changed_fields)"

text \<open>Lines 159 to 168: the loop over \<open>zip(cad2_list, cad1_list)\<close>.\<close>

fun feature_modifications_loop ::
  "(detail \<times> detail) list \<Rightarrow> modification list \<Rightarrow> modification list" where
  "feature_modifications_loop [] feature_modifications = feature_modifications"
| "feature_modifications_loop ((cad2_detail, cad1_detail) # pairs) feature_modifications =
     (let changed_fields = changed_fields_loop cad1_detail cad2_detail []
      in feature_modifications_loop pairs
           (if changed_fields \<noteq> []
            then feature_modifications @
                   [\<lparr>name = dict_get cad2_detail ''Name'' (Text ''Unknown''),
                     fields' = changed_fields\<rparr>]
            else feature_modifications))"

text \<open>
  Lines 152 to 174: the loop over \<open>cad2.items()\<close>, on the result dict \<open>m\<close>
  (\<open>modifications\<close> in the source). \<open>cad2[feature]\<close> is a lookup in the whole dict.
\<close>

fun additions_loop ::
  "features \<Rightarrow> features \<Rightarrow> (string \<times> detail list) list \<Rightarrow> differences \<Rightarrow> error + differences" where
  "additions_loop cad1 cad2 [] m = Inr m"
| "additions_loop cad1 cad2 ((feature, cad2_details) # items) m =
     (if \<not> dict_contains cad1 feature
      then additions_loop cad1 cad2 items
             (m\<lparr>additions := dict_set (additions m) feature cad2_details\<rparr>)
      else
        (case dict_index cad2 feature of
           Inl e \<Rightarrow> Inl e
         | Inr cad2_list \<Rightarrow>
             (let cad1_list = dict_get cad1 feature [];
                  feature_modifications = feature_modifications_loop (zip cad2_list cad1_list) [];
                  m1 = (if feature_modifications \<noteq> []
                        then m\<lparr>modifications :=
                               dict_set (modifications m) feature feature_modifications\<rparr>
                        else m);
                  m2 = (if length cad2_list > length cad1_list
                        then m1\<lparr>additions :=
                                dict_set (additions m1) feature (drop (length cad1_list) cad2_list)\<rparr>
                        else m1)
              in additions_loop cad1 cad2 items m2)))"

text \<open>Lines 177 to 184: the loop over \<open>cad1.items()\<close>.\<close>

fun removals_loop ::
  "features \<Rightarrow> features \<Rightarrow> (string \<times> detail list) list \<Rightarrow> differences \<Rightarrow> error + differences" where
  "removals_loop cad1 cad2 [] m = Inr m"
| "removals_loop cad1 cad2 ((feature, cad1_details) # items) m =
     (if \<not> dict_contains cad2 feature
      then removals_loop cad1 cad2 items
             (m\<lparr>removals := dict_set (removals m) feature cad1_details\<rparr>)
      else
        (case dict_index cad1 feature of
           Inl e \<Rightarrow> Inl e
         | Inr cad1_list \<Rightarrow>
             (let cad2_list = dict_get cad2 feature []
              in removals_loop cad1 cad2 items
                   (if length cad1_list > length cad2_list
                    then m\<lparr>removals :=
                           dict_set (removals m) feature (drop (length cad2_list) cad1_list)\<rparr>
                    else m))))"

definition compare_features :: "features \<Rightarrow> features \<Rightarrow> error + differences" where
  "compare_features cad1 cad2 =
     (case additions_loop cad1 cad2 cad2 \<lparr>additions = [], modifications = [], removals = []\<rparr> of
        Inl e \<Rightarrow> Inl e
      | Inr m \<Rightarrow> removals_loop cad1 cad2 cad1 m)"

section \<open>cam_parser_xml\<close>

definition TOOLSTYPELIST :: "string list" where
  "TOOLSTYPELIST = [''TurningToolStandard'', ''Drill'', ''SpotDrill'']"

text \<open>
  What \<open>parse_cam_xml\<close> stores under an attribute name: a float, a string, or the
  \<open>tool_info\<close> dict of strings.
\<close>

datatype cam_value = CamNumber pyfloat | CamText string | CamTool "(string \<times> string) list"

type_synonym operation_details = "(string \<times> cam_value) list"
type_synonym CAMOperations = "(string \<times> operation_details list) list"

text \<open>Lines 41 and 42: the loop over the children of a tool element.\<close>

fun tool_info_loop :: "element list \<Rightarrow> (string \<times> string) list \<Rightarrow> error + (string \<times> string) list" where
  "tool_info_loop [] tool_info = Inr tool_info"
| "tool_info_loop (tool_attr # rest) tool_info =
     (case etext tool_attr of
        None \<Rightarrow> Inl AttributeError
      | Some raw \<Rightarrow> tool_info_loop rest (dict_set tool_info (tag tool_attr) (strip raw)))"

text \<open>Lines 37 to 49: the loop over the sub-elements of one operation.\<close>

fun operation_details_loop ::
  "float_parser \<Rightarrow> element list \<Rightarrow> operation_details \<Rightarrow> error + operation_details" where
  "operation_details_loop fl [] operation_details = Inr operation_details"
| "operation_details_loop fl (attribute # rest) operation_details =
     (if tag attribute \<in> set TOOLSTYPELIST then
        (case tool_info_loop (children attribute) [] of
           Inl e \<Rightarrow> Inl e
         | Inr tool_info \<Rightarrow>
             operation_details_loop fl rest
               (dict_set operation_details (tag attribute) (CamTool tool_info)))
      else
        (case etext attribute of
           None \<Rightarrow> Inl AttributeError
         | Some raw \<Rightarrow>
             (if tag attribute \<in>
                   set [''Step'', ''SurfaceSpeed'', ''FeedRate'', ''Stock'', ''NoseRadius'']
              then
                (case fl (strip raw) of
                   None \<Rightarrow> Inl ValueError
                 | Some f \<Rightarrow>
                     operation_details_loop fl rest
                       (dict_set operation_details (tag attribute) (CamNumber f)))
              else
                operation_details_loop fl rest
                  (dict_set operation_details (tag attribute) (CamText (strip raw))))))"

text \<open>Lines 32 to 54: the loop over the operations.\<close>

fun operations_loop ::
  "float_parser \<Rightarrow> element list \<Rightarrow> CAMOperations \<Rightarrow> error + CAMOperations" where
  "operations_loop fl [] operations = Inr operations"
| "operations_loop fl (operation # rest) operations =
     (case operation_details_loop fl (children operation) [] of
        Inl e \<Rightarrow> Inl e
      | Inr operation_details \<Rightarrow>
          (let operations1 = (if \<not> dict_contains operations (tag operation)
                              then dict_set operations (tag operation) [] else operations)
           in case dict_index operations1 (tag operation) of
                Inl e \<Rightarrow> Inl e
              | Inr l \<Rightarrow> operations_loop fl rest
                          (dict_set operations1 (tag operation) (l @ [operation_details]))))"

text \<open>\<open>parse_cam_xml\<close> from the parsed root on (reading the file is not modelled).\<close>

definition parse_cam_xml :: "float_parser \<Rightarrow> element \<Rightarrow> error + CAMOperations" where
  "parse_cam_xml fl doc = operations_loop fl (children doc) []"

section \<open>Auxiliary definitions\<close>

text \<open>
  One pass of the body of each loop of \<open>compare_features\<close>, for a tag and the list
  the iterated dict holds under it; the loops are folds of these steps when the
  dicts have distinct keys.
\<close>

definition additions_step :: "features \<Rightarrow> string \<Rightarrow> detail list \<Rightarrow> differences \<Rightarrow> differences" where
  "additions_step cad1 feature cad2_list m =
     (case map_of cad1 feature of
        None \<Rightarrow> m\<lparr>additions := dict_set (additions m) feature cad2_list\<rparr>
      | Some cad1_list \<Rightarrow>
          (let fm = feature_modifications_loop (zip cad2_list cad1_list) [];
               m1 = (if fm \<noteq> [] then m\<lparr>modifications := dict_set (modifications m) feature fm\<rparr>
                     else m)
           in if length cad1_list < length cad2_list
              then m1\<lparr>additions :=
                      dict_set (additions m1) feature (drop (length cad1_list) cad2_list)\<rparr>
              else m1))"

definition removals_step :: "features \<Rightarrow> string \<Rightarrow> detail list \<Rightarrow> differences \<Rightarrow> differences" where
  "removals_step cad2 feature cad1_list m =
     (case map_of cad2 feature of
        None \<Rightarrow> m\<lparr>removals := dict_set (removals m) feature cad1_list\<rparr>
      | Some cad2_list \<Rightarrow>
          (if length cad2_list < length cad1_list
           then m\<lparr>removals := dict_set (removals m) feature (drop (length cad2_list) cad1_list)\<rparr>
           else m))"

text \<open>
  The entry the loop of lines 159 to 168 appends for one pair of records: none when
  no field changed.
\<close>

definition modification_entry :: "detail \<times> detail \<Rightarrow> modification list" where
  "modification_entry p =
     (case p of (cad2_detail, cad1_detail) \<Rightarrow>
        if changed_fields_loop cad1_detail cad2_detail [] = [] then []
        else [\<lparr>name = (case map_of cad2_detail ''Name'' of
                          Some n \<Rightarrow> n | None \<Rightarrow> Text ''Unknown''),
                fields' = changed_fields_loop cad1_detail cad2_detail []\<rparr>])"

text \<open>
  What one pass of the loop of lines 37 to 49 stores under the sub-element's tag,
  or the exception it raises.
\<close>

definition attribute_value :: "float_parser \<Rightarrow> element \<Rightarrow> error + cam_value" where
  "attribute_value fl attribute =
     (if tag attribute \<in> set TOOLSTYPELIST then
        (case tool_info_loop (children attribute) [] of
           Inl e \<Rightarrow> Inl e
         | Inr tool_info \<Rightarrow> Inr (CamTool tool_info))
      else
        (case etext attribute of
           None \<Rightarrow> Inl AttributeError
         | Some raw \<Rightarrow>
             (if tag attribute \<in>
                   set [''Step'', ''SurfaceSpeed'', ''FeedRate'', ''Stock'', ''NoseRadius'']
              then (case fl (strip raw) of
                      None \<Rightarrow> Inl ValueError
                    | Some f \<Rightarrow> Inr (CamNumber f))
              else Inr (CamText (strip raw)))))"



text \<open>A value without NaN, and a collection that is a dict of lists of dicts.\<close>

fun nan_free :: "value \<Rightarrow> bool" where
  "nan_free (Number a) = (a \<noteq> NaN)"
| "nan_free (Point x y z) = (x \<noteq> NaN \<and> y \<noteq> NaN \<and> z \<noteq> NaN)"
| "nan_free (Text s) = True"

definition features_nan_free :: "features \<Rightarrow> bool" where
  "features_nan_free X = list_all (\<lambda>e. list_all (list_all (\<lambda>kv. nan_free (snd kv))) (snd e)) X"

definition features_wf :: "features \<Rightarrow> bool" where
  "features_wf X =
     (distinct (map fst X) \<and> list_all (\<lambda>e. list_all (\<lambda>r. distinct (map fst r)) (snd e)) X)"

text \<open>
  The value of the built-in \<open>float\<close> on the numerals the examples use. The examples
  contain no other string that \<open>float\<close> accepts.
\<close>

definition float_lit :: float_parser where
  "float_lit s =
     (if s = ''0'' then Some (Finite 0)
      else if s = ''1'' then Some (Finite 1)
      else if s = ''3'' then Some (Finite 3)
      else if s = ''5'' then Some (Finite 5)
      else if s = ''-32'' then Some (Finite (- 32))
      else if s = ''119.55'' then Some (Finite 119.55)
      else if s = ''69.0222'' then Some (Finite 69.0222)
      else if s = ''nan'' then Some NaN
      else None)"


section \<open>Example documents and collections\<close>

text \<open>Features \<open>HOLE\<close>, \<open>SLOT\<close>, \<open>HOLE\<close>, in this order.\<close>

definition doc_aba :: element where
  "doc_aba = Element ''Component'' None
     [Element ''HOLE'' None [Element ''Name'' (Some ''H1'') []],
      Element ''SLOT'' None [Element ''Name'' (Some ''S1'') []],
      Element ''HOLE'' None [Element ''Name'' (Some ''H2'') []]]"

text \<open>One feature whose \<open>Diameter\<close> attribute occurs twice.\<close>

definition hole_twice :: element where
  "hole_twice = Element ''HOLE'' None
     [Element ''Name'' (Some ''H1'') [],
      Element ''Diameter'' (Some ''3'') [],
      Element ''Diameter'' (Some '' 5 '') []]"

definition doc_twice :: element where
  "doc_twice = Element ''Component'' None [hole_twice]"


text \<open>
  A baseline and a target: \<open>ONLY_BASE\<close> is dropped, \<open>ONLY_TARGET\<close> is new,
  \<open>GROW\<close> gains a record and \<open>SHRINK\<close> loses one.
\<close>

definition base_ex :: features where
  "base_ex =
     [(''ONLY_BASE'', [[(''Name'', Text ''B1'')]]),
      (''GROW'', [[(''Name'', Text ''G1'')]]),
      (''SHRINK'', [[(''Name'', Text ''S1'')], [(''Name'', Text ''S2'')]])]"

definition target_ex :: features where
  "target_ex =
     [(''GROW'', [[(''Name'', Text ''G1'')], [(''Name'', Text ''G2'')]]),
      (''SHRINK'', [[(''Name'', Text ''S1'')]]),
      (''ONLY_TARGET'', [[(''Name'', Text ''T1'')], [(''Name'', Text ''T2'')]])]"




text \<open>A collection with the three kinds of value, and the document and collection
  of a feature whose diameter is not a number.\<close>

definition part_ex :: features where
  "part_ex =
     [(''HOLE'', [[(''Name'', Text ''Hole1''),
                   (''Origin'', Point (Finite 0) (Finite 0) (Finite 1)),
                   (''Diameter'', Number (Finite 3))],
                  [(''Name'', Text ''Hole2'')]]),
      (''SLOT'', [[(''Name'', Text ''Slot1'')]])]"

definition doc_nan :: element where
  "doc_nan = Element ''Component'' None
     [Element ''HOLE'' None [Element ''Diameter'' (Some ''nan'') []]]"

definition features_nan :: features where
  "features_nan = [(''HOLE'', [[(''Diameter'', Number NaN)]])]"


text \<open>
  A machine document: one operation with two leaf attributes that are not numeric
  by name, one that is, and a tool.
\<close>

definition drilling :: element where
  "drilling = Element ''Drilling'' None
     [Element ''Name'' (Some ''D1'') [],
      Element ''Depth'' (Some ''3'') [],
      Element ''Step'' (Some '' 5 '') [],
      Element ''Drill'' None
        [Element ''Name'' (Some '' DR1 '') [], Element ''Diameter'' (Some ''3'') []]]"

definition doc_cam :: element where
  "doc_cam = Element ''Machine'' None [drilling]"

text \<open>A document whose leaf attributes read as a number and as a point.\<close>

definition doc_depth :: element where
  "doc_depth = Element ''Machine'' None
     [Element ''Drilling'' None
        [Element ''Depth'' (Some ''3'') [], Element ''Origin'' (Some ''0 0 1'') []]]"

section \<open>Dictionary facts\<close>

lemma map_of_dict_set: "map_of (dict_set d k v) = (map_of d)(k \<mapsto> v)"
  by (induction d) (auto simp: fun_eq_iff)

lemma keys_dict_set:
  "map fst (dict_set d k v) = (if k \<in> set (map fst d) then map fst d else map fst d @ [k])"
  by (induction d) force+

lemma distinct_dict_set: "distinct (map fst d) \<Longrightarrow> distinct (map fst (dict_set d k v))"
  by (simp add: keys_dict_set)

lemma dict_set_twice: "dict_set (dict_set d k v) k w = dict_set d k w"
  by (induction d) auto

lemma dict_get_dict_set:
  "dict_get (dict_set d k v) k' dflt = (if k' = k then v else dict_get d k' dflt)"
  by (simp add: dict_get_def map_of_dict_set)

lemma dict_contains_iff: "dict_contains d k \<longleftrightarrow> map_of d k \<noteq> None"
  by (simp add: dict_contains_def map_of_eq_None_iff)

lemma dict_contains_dict_set:
  "dict_contains (dict_set d k v) k' \<longleftrightarrow> k' = k \<or> dict_contains d k'"
  by (auto simp: dict_contains_iff map_of_dict_set)

lemma dict_index_member:
  "distinct (map fst d) \<Longrightarrow> (k, v) \<in> set d \<Longrightarrow> dict_index d k = Inr v"
  by (simp add: dict_index_def)

lemma dict_index_key: "(k, v) \<in> set d \<Longrightarrow> \<exists>w. dict_index d k = Inr w"
proof -
  assume "(k, v) \<in> set d"
  then have "k \<in> fst ` set d" by force
  then have "map_of d k \<noteq> None" by (simp add: map_of_eq_None_iff)
  then show ?thesis by (auto simp: dict_index_def)
qed

lemma count_key_distinct:
  "distinct (map fst d) \<Longrightarrow> map_of d k = Some v \<Longrightarrow> length (filter (\<lambda>p. fst p = k) d) = 1"
proof (induction d)
  case Nil
  then show ?case by simp
next
  case (Cons p d)
  show ?case
  proof (cases "fst p = k")
    case True
    with Cons.prems have "k \<notin> fst ` set d" by auto
    then have "filter (\<lambda>p. fst p = k) d = []" by (auto simp: filter_empty_conv)
    with True show ?thesis by simp
  next
    case False
    with Cons show ?thesis by (cases p) auto
  qed
qed

lemma list_all2_pick:
  "list_all2 P xs ys \<Longrightarrow> x \<in> set xs \<Longrightarrow> \<exists>y \<in> set ys. P x y"
  by (induction rule: list_all2_induct) auto

section \<open>Classification\<close>

lemmas run_defs =
  extract_features_def classify_def is_number_def is_point_def parse_point_def float_lit_def
  strip_def split_def isspace_def dict_contains_def dict_index_def dict_get_def

lemma classify_returns: "classify fl raw = Inr (classify_spec fl raw)"
proof (cases "fl (strip raw)")
  case (Some f)
  then show ?thesis
    by (simp add: classify_def classify_spec_def is_number_def)
next
  case None
  then show ?thesis
    by (auto simp: classify_def classify_spec_def is_number_def is_point_def parse_point_def
          Let_def split: list.splits option.splits)
qed

text \<open>
  C1: for every string, and whatever \<open>float\<close> accepts, the classification of lines
  77 to 84 returns a value and raises nothing, and the value is the one the
  specification's order prescribes: Number first, then Point with x, y, z in token
  order, then Text holding the trimmed string (the empty string included).
\<close>

theorem classify_total: "classify fl raw = Inr (classify_spec fl raw)"
proof (cases "fl (strip raw)")
  case (Some f)
  then have "is_number fl (strip raw)"
    by (simp add: is_number_def)
  with Some show ?thesis
    by (simp add: classify_def classify_spec_def)
next
  case None
  then have no_number: "\<not> is_number fl (strip raw)"
    by (simp add: is_number_def)
  show ?thesis
  proof (cases "is_point fl (strip raw)")
    case True
    then obtain a b c where parts: "split (strip raw) = [a, b, c]"
      and nums: "is_number fl a" "is_number fl b" "is_number fl c"
      by (auto simp: is_point_def Let_def length_Suc_conv numeral_3_eq_3)
    from nums obtain x y z where "fl a = Some x" "fl b = Some y" "fl c = Some z"
      by (auto simp: is_number_def split: option.splits)
    with None no_number True parts show ?thesis
      by (simp add: classify_def classify_spec_def parse_point_def)
  next
    case False
    with None no_number show ?thesis
      by (auto simp: classify_def classify_spec_def is_point_def is_number_def Let_def
            split: list.splits option.splits)
  qed
qed

text \<open>The examples of the specification, and the empty text.\<close>

lemma classify_examples:
  "classify float_lit ''119.55 69.0222 -32'' =
     Inr (Point (Finite 119.55) (Finite 69.0222) (Finite (- 32)))"
  "classify float_lit ''3'' = Inr (Number (Finite 3))"
  "classify float_lit ''OUTER_DIAMETER(1of1){1of1}'' = Inr (Text ''OUTER_DIAMETER(1of1){1of1}'')"
  "classify float_lit ''  '' = Inr (Text [])"
  by (simp_all add: run_defs)

section \<open>Extraction\<close>

lemma features_loop_step:
  "features_loop fl (child # rest) fs =
     (case extract_details fl (children child) [] of
        Inl e \<Rightarrow> Inl e
      | Inr fd \<Rightarrow> features_loop fl rest
                    (dict_set fs (tag child) (dict_get fs (tag child) [] @ [fd])))"
  by (auto simp: dict_index_def dict_get_def dict_contains_iff map_of_dict_set dict_set_twice
        split: sum.splits option.splits)

lemma extract_details_error:
  "extract_details fl attrs d = Inl e \<Longrightarrow> e = AttributeError"
  by (induction attrs arbitrary: d) (auto simp: classify_returns split: option.splits)

lemma extract_details_no_text:
  "\<exists>a \<in> set attrs. etext a = None \<Longrightarrow> extract_details fl attrs d = Inl AttributeError"
  by (induction attrs arbitrary: d) (auto simp: classify_returns split: option.splits)

lemma extract_details_append:
  "extract_details fl (xs @ ys) d =
     (case extract_details fl xs d of Inl e \<Rightarrow> Inl e | Inr d1 \<Rightarrow> extract_details fl ys d1)"
  by (induction xs arbitrary: d) (auto simp: classify_returns split: option.splits)

lemma extract_details_keep:
  "extract_details fl ys d1 = Inr d \<Longrightarrow> k \<notin> tag ` set ys \<Longrightarrow> map_of d k = map_of d1 k"
  by (induction ys arbitrary: d1)
     (auto simp: classify_returns map_of_dict_set split: option.splits)

lemma extract_details_distinct:
  "extract_details fl ys d1 = Inr d \<Longrightarrow> distinct (map fst d1) \<Longrightarrow> distinct (map fst d)"
  by (induction ys arbitrary: d1)
     (auto simp: classify_returns distinct_dict_set split: option.splits)

lemma features_loop_no_text:
  "\<exists>c \<in> set cs. \<exists>a \<in> set (children c). etext a = None \<Longrightarrow>
     features_loop fl cs fs = Inl AttributeError"
proof (induction cs arbitrary: fs)
  case Nil
  then show ?case by simp
next
  case (Cons c cs)
  show ?case
  proof (cases "extract_details fl (children c) []")
    case (Inl e)
    then show ?thesis
      using extract_details_error [OF Inl]
      by (simp add: features_loop_step del: features_loop.simps)
  next
    case (Inr fd)
    have "\<not> (\<exists>a \<in> set (children c). etext a = None)"
    proof
      assume "\<exists>a \<in> set (children c). etext a = None"
      from extract_details_no_text [OF this, of fl "[]"] Inr show False by simp
    qed
    with Cons.prems have "\<exists>c \<in> set cs. \<exists>a \<in> set (children c). etext a = None" by auto
    from Cons.IH [OF this] Inr show ?thesis
      by (simp add: features_loop_step del: features_loop.simps)
  qed
qed

lemma features_loop_records:
  "features_loop fl cs fs = Inr fs' \<Longrightarrow>
     \<exists>new. dict_get fs' T [] = dict_get fs T [] @ new \<and>
           list_all2 (\<lambda>c d. extract_details fl (children c) [] = Inr d)
             (filter (\<lambda>c. tag c = T) cs) new"
proof (induction cs arbitrary: fs)
  case Nil
  then show ?case by simp
next
  case (Cons c cs)
  from Cons.prems obtain fd where fd: "extract_details fl (children c) [] = Inr fd"
    and rest: "features_loop fl cs (dict_set fs (tag c) (dict_get fs (tag c) [] @ [fd])) = Inr fs'"
    by (auto simp: features_loop_step simp del: features_loop.simps split: sum.splits)
  from Cons.IH [OF rest] obtain new where
    new: "dict_get fs' T [] =
            dict_get (dict_set fs (tag c) (dict_get fs (tag c) [] @ [fd])) T [] @ new"
    and rel: "list_all2 (\<lambda>c d. extract_details fl (children c) [] = Inr d)
                (filter (\<lambda>c. tag c = T) cs) new"
    by blast
  show ?case
  proof (cases "tag c = T")
    case True
    with new have "dict_get fs' T [] = dict_get fs T [] @ (fd # new)"
      by (simp add: dict_get_dict_set)
    moreover from True fd rel have
      "list_all2 (\<lambda>c d. extract_details fl (children c) [] = Inr d)
         (filter (\<lambda>c. tag c = T) (c # cs)) (fd # new)"
      by simp
    ultimately show ?thesis by blast
  next
    case False
    with new rel show ?thesis
      by (auto simp: dict_get_dict_set)
  qed
qed

lemma features_loop_keys:
  "features_loop fl cs fs = Inr fs' \<Longrightarrow>
     dict_contains fs' T \<longleftrightarrow> dict_contains fs T \<or> T \<in> tag ` set cs"
proof (induction cs arbitrary: fs)
  case Nil
  then show ?case by simp
next
  case (Cons c cs)
  from Cons.prems obtain fd where
    rest: "features_loop fl cs (dict_set fs (tag c) (dict_get fs (tag c) [] @ [fd])) = Inr fs'"
    by (auto simp: features_loop_step simp del: features_loop.simps split: sum.splits)
  from Cons.IH [OF rest] show ?case
    by (auto simp: dict_contains_dict_set)
qed

lemma extract_features_records:
  assumes "extract_features fl doc = Inr fc"
  shows "list_all2 (\<lambda>c d. extract_details fl (children c) [] = Inr d)
           (filter (\<lambda>c. tag c = T) (children doc)) (dict_get fc T [])"
proof -
  from assms have "features_loop fl (children doc) [] = Inr fc"
    by (simp add: extract_features_def)
  from features_loop_records [OF this, of T] show ?thesis
    by (simp add: dict_get_def)
qed

text \<open>
  C3: when some attribute node (a child of a child of the root) has no text,
  \<open>extract_features\<close> raises and returns no collection at all. The exception is the
  AttributeError of \<open>None.strip()\<close>, which is what the specification calls a
  MalformedInputError; nothing in the loops catches it.
\<close>

theorem extract_features_missing_text:
  assumes "\<exists>c \<in> set (children doc). \<exists>a \<in> set (children c). etext a = None"
  shows "extract_features fl doc = Inl AttributeError"
  using features_loop_no_text [OF assms] by (simp add: extract_features_def)

theorem extract_features_missing_text_witness:
  "(\<exists>c \<in> set (children (Element ''Component'' None
        [Element ''HOLE'' None [Element ''Name'' (Some ''H1'') [], Element ''Diameter'' None []],
         Element ''SLOT'' None [Element ''Name'' (Some ''S1'') []]])).
      \<exists>a \<in> set (children c). etext a = None)
   \<and> extract_features float_lit (Element ''Component'' None
        [Element ''HOLE'' None [Element ''Name'' (Some ''H1'') [], Element ''Diameter'' None []],
         Element ''SLOT'' None [Element ''Name'' (Some ''S1'') []]]) = Inl AttributeError"
proof -
  have h: "\<exists>c \<in> set (children (Element ''Component'' None
        [Element ''HOLE'' None [Element ''Name'' (Some ''H1'') [], Element ''Diameter'' None []],
         Element ''SLOT'' None [Element ''Name'' (Some ''S1'') []]])).
      \<exists>a \<in> set (children c). etext a = None"
    by simp
  from h extract_features_missing_text [OF h, of float_lit] show ?thesis by blast
qed

text \<open>
  C8: in the collection \<open>extract_features\<close> returns, the list under a tag holds the
  records of the features with that tag, one per feature and in document order, and
  the tags of the collection are the tags of the features. For features \<open>[A, B, A]\<close>
  the list under \<open>A\<close> has the two records of the two \<open>A\<close> features, first one first.
\<close>

theorem extract_features_document_order:
  assumes "extract_features fl doc = Inr fc"
  shows "list_all2 (\<lambda>c d. extract_details fl (children c) [] = Inr d)
           (filter (\<lambda>c. tag c = T) (children doc)) (dict_get fc T [])
         \<and> (dict_contains fc T \<longleftrightarrow> T \<in> tag ` set (children doc))
         \<and> (\<forall>a1 b a2. children doc = [a1, b, a2] \<and> tag a1 = T \<and> tag b \<noteq> T \<and> tag a2 = T \<longrightarrow>
               (\<exists>d1 d2. dict_get fc T [] = [d1, d2] \<and>
                   extract_details fl (children a1) [] = Inr d1 \<and>
                   extract_details fl (children a2) [] = Inr d2))"
proof -
  from assms have loop: "features_loop fl (children doc) [] = Inr fc"
    by (simp add: extract_features_def)
  note rel = extract_features_records [OF assms, of T]
  from features_loop_keys [OF loop, of T] have
    keys: "dict_contains fc T \<longleftrightarrow> T \<in> tag ` set (children doc)"
    by (simp add: dict_contains_def)
  have aba: "\<exists>d1 d2. dict_get fc T [] = [d1, d2] \<and>
                   extract_details fl (children a1) [] = Inr d1 \<and>
                   extract_details fl (children a2) [] = Inr d2"
    if "children doc = [a1, b, a2]" "tag a1 = T" "tag b \<noteq> T" "tag a2 = T" for a1 b a2
  proof -
    from rel that have "list_all2 (\<lambda>c d. extract_details fl (children c) [] = Inr d)
        [a1, a2] (dict_get fc T [])"
      by simp
    then show ?thesis
      by (auto simp: list_all2_Cons1)
  qed
  from rel keys aba show ?thesis by blast
qed


theorem extract_features_document_order_witness:
  "extract_features float_lit doc_aba =
     Inr [(''HOLE'', [[(''Name'', Text ''H1'')], [(''Name'', Text ''H2'')]]),
          (''SLOT'', [[(''Name'', Text ''S1'')]])]
   \<and> (\<exists>d1 d2.
         dict_get [(''HOLE'', [[(''Name'', Text ''H1'')], [(''Name'', Text ''H2'')]]),
                   (''SLOT'', [[(''Name'', Text ''S1'')]])] ''HOLE'' [] = [d1, d2] \<and>
         extract_details float_lit [Element ''Name'' (Some ''H1'') []] [] = Inr d1 \<and>
         extract_details float_lit [Element ''Name'' (Some ''H2'') []] [] = Inr d2)"
proof -
  have h: "extract_features float_lit doc_aba =
     Inr [(''HOLE'', [[(''Name'', Text ''H1'')], [(''Name'', Text ''H2'')]]),
          (''SLOT'', [[(''Name'', Text ''S1'')]])]"
    by (simp add: doc_aba_def run_defs)
  have c: "children doc_aba =
      [Element ''HOLE'' None [Element ''Name'' (Some ''H1'') []],
       Element ''SLOT'' None [Element ''Name'' (Some ''S1'') []],
       Element ''HOLE'' None [Element ''Name'' (Some ''H2'') []]]"
    by (simp add: doc_aba_def)
  from extract_features_document_order [OF h, of "''HOLE''"] c
  have "\<exists>d1 d2.
         dict_get [(''HOLE'', [[(''Name'', Text ''H1'')], [(''Name'', Text ''H2'')]]),
                   (''SLOT'', [[(''Name'', Text ''S1'')]])] ''HOLE'' [] = [d1, d2] \<and>
         extract_details float_lit
           (children (Element ''HOLE'' None [Element ''Name'' (Some ''H1'') []])) [] = Inr d1 \<and>
         extract_details float_lit
           (children (Element ''HOLE'' None [Element ''Name'' (Some ''H2'') []])) [] = Inr d2"
    by simp
  with h show ?thesis by simp
qed

text \<open>
  C9: when a feature of a document that \<open>extract_features\<close> accepts has an
  attribute tag several times, the feature's record (one of the records stored
  under the feature's tag) has exactly one entry with that name, and its value is
  the classification of the text of the last attribute with that tag.
\<close>

theorem extract_features_last_wins:
  assumes "extract_features fl doc = Inr fc"
    and "node \<in> set (children doc)"
    and "children node = pre @ a # post"
    and "tag a \<notin> tag ` set post"
  shows "\<exists>d raw. d \<in> set (dict_get fc (tag node) []) \<and>
           extract_details fl (children node) [] = Inr d \<and>
           etext a = Some raw \<and> map_of d (tag a) = Some (classify_spec fl raw) \<and>
           length (filter (\<lambda>p. fst p = tag a) d) = 1"
proof -
  from assms(2) have "node \<in> set (filter (\<lambda>c. tag c = tag node) (children doc))" by simp
  from list_all2_pick [OF extract_features_records [OF assms(1)] this]
  obtain d where mem: "d \<in> set (dict_get fc (tag node) [])"
    and d: "extract_details fl (children node) [] = Inr d"
    by blast
  from d assms(3) obtain d1 where
    tl: "extract_details fl (a # post) d1 = Inr d"
    by (auto simp: extract_details_append split: sum.splits)
  from tl obtain raw where raw: "etext a = Some raw"
    and post: "extract_details fl post (dict_set d1 (tag a) (classify_spec fl raw)) = Inr d"
    by (auto simp: classify_returns split: option.splits)
  from extract_details_keep [OF post assms(4)] have
    look: "map_of d (tag a) = Some (classify_spec fl raw)"
    by (simp add: map_of_dict_set)
  have "distinct (map fst d)"
    using extract_details_distinct [OF d] by simp
  from count_key_distinct [OF this look] mem d raw look show ?thesis by blast
qed

theorem extract_features_last_wins_witness:
  "extract_features float_lit doc_twice =
     Inr [(''HOLE'', [[(''Name'', Text ''H1''), (''Diameter'', Number (Finite 5))]])]
   \<and> (\<exists>d raw. d \<in> set (dict_get
                 [(''HOLE'', [[(''Name'', Text ''H1''), (''Diameter'', Number (Finite 5))]])]
                 (tag hole_twice) []) \<and>
        extract_details float_lit (children hole_twice) [] = Inr d \<and>
        etext (Element ''Diameter'' (Some '' 5 '') []) = Some raw \<and>
        map_of d ''Diameter'' = Some (classify_spec float_lit raw) \<and>
        length (filter (\<lambda>p. fst p = ''Diameter'') d) = 1)"
proof -
  have h: "extract_features float_lit doc_twice =
     Inr [(''HOLE'', [[(''Name'', Text ''H1''), (''Diameter'', Number (Finite 5))]])]"
    by (simp add: doc_twice_def hole_twice_def run_defs)
  have n: "hole_twice \<in> set (children doc_twice)"
    by (simp add: doc_twice_def)
  have c: "children hole_twice =
      [Element ''Name'' (Some ''H1'') [], Element ''Diameter'' (Some ''3'') []]
      @ Element ''Diameter'' (Some '' 5 '') [] # []"
    by (simp add: hole_twice_def)
  have l: "tag (Element ''Diameter'' (Some '' 5 '') []) \<notin> tag ` set []"
    by simp
  from extract_features_last_wins [OF h n c l] h show ?thesis by simp
qed

section \<open>The loops of compare_features\<close>

lemma additions_loop_Cons:
  assumes "distinct (map fst cad2)" and "(feature, cad2_list) \<in> set cad2"
  shows "additions_loop cad1 cad2 ((feature, cad2_list) # items) m =
           additions_loop cad1 cad2 items (additions_step cad1 feature cad2_list m)"
  using dict_index_member [OF assms]
  by (auto simp: additions_step_def dict_contains_iff dict_get_def Let_def)

lemma removals_loop_Cons:
  assumes "distinct (map fst cad1)" and "(feature, cad1_list) \<in> set cad1"
  shows "removals_loop cad1 cad2 ((feature, cad1_list) # items) m =
           removals_loop cad1 cad2 items (removals_step cad2 feature cad1_list m)"
  using dict_index_member [OF assms]
  by (auto simp: removals_step_def dict_contains_iff dict_get_def Let_def)

lemma additions_loop_foldl:
  assumes "distinct (map fst cad2)" and "set items \<subseteq> set cad2"
  shows "additions_loop cad1 cad2 items m =
           Inr (foldl (\<lambda>m (feature, cad2_list). additions_step cad1 feature cad2_list m) m items)"
  using assms(2)
proof (induction items arbitrary: m)
  case Nil
  then show ?case by simp
next
  case (Cons p items)
  obtain feature cad2_list where p: "p = (feature, cad2_list)" by (cases p)
  with Cons.prems have "(feature, cad2_list) \<in> set cad2" and "set items \<subseteq> set cad2" by auto
  with Cons.IH p show ?case
    by (simp add: additions_loop_Cons [OF assms(1)] del: additions_loop.simps)
qed

lemma removals_loop_foldl:
  assumes "distinct (map fst cad1)" and "set items \<subseteq> set cad1"
  shows "removals_loop cad1 cad2 items m =
           Inr (foldl (\<lambda>m (feature, cad1_list). removals_step cad2 feature cad1_list m) m items)"
  using assms(2)
proof (induction items arbitrary: m)
  case Nil
  then show ?case by simp
next
  case (Cons p items)
  obtain feature cad1_list where p: "p = (feature, cad1_list)" by (cases p)
  with Cons.prems have "(feature, cad1_list) \<in> set cad1" and "set items \<subseteq> set cad1" by auto
  with Cons.IH p show ?case
    by (simp add: removals_loop_Cons [OF assms(1)] del: removals_loop.simps)
qed

text \<open>The two lookups \<open>cad2[feature]\<close> and \<open>cad1[feature]\<close> never raise: the key
  comes from the dict itself.\<close>

lemma additions_loop_returns:
  "set items \<subseteq> set cad2 \<Longrightarrow> \<exists>m'. additions_loop cad1 cad2 items m = Inr m'"
proof (induction items arbitrary: m)
  case Nil
  then show ?case by simp
next
  case (Cons p items)
  obtain feature cad2_list where p: "p = (feature, cad2_list)" by (cases p)
  with Cons.prems have "(feature, cad2_list) \<in> set cad2" and sub: "set items \<subseteq> set cad2"
    by auto
  from dict_index_key [OF this(1)] obtain w where "dict_index cad2 feature = Inr w" ..
  with Cons.IH [OF sub] p show ?case by (simp add: Let_def)
qed

lemma removals_loop_returns:
  "set items \<subseteq> set cad1 \<Longrightarrow> \<exists>m'. removals_loop cad1 cad2 items m = Inr m'"
proof (induction items arbitrary: m)
  case Nil
  then show ?case by simp
next
  case (Cons p items)
  obtain feature cad1_list where p: "p = (feature, cad1_list)" by (cases p)
  with Cons.prems have "(feature, cad1_list) \<in> set cad1" and sub: "set items \<subseteq> set cad1"
    by auto
  from dict_index_key [OF this(1)] obtain w where "dict_index cad1 feature = Inr w" ..
  with Cons.IH [OF sub] p show ?case by (simp add: Let_def)
qed

lemma compare_features_returns: "\<exists>r. compare_features cad1 cad2 = Inr r"
proof -
  obtain m where m: "additions_loop cad1 cad2 cad2
      \<lparr>additions = [], modifications = [], removals = []\<rparr> = Inr m"
    using additions_loop_returns [of cad2 cad2] by blast
  obtain r where "removals_loop cad1 cad2 cad1 m = Inr r"
    using removals_loop_returns [of cad1 cad1] by blast
  with m show ?thesis by (simp add: compare_features_def)
qed

lemma removals_additions_step [simp]:
  "removals (additions_step cad1 feature cad2_list m) = removals m"
  by (simp add: additions_step_def Let_def split: option.splits)

lemma additions_removals_step [simp]:
  "additions (removals_step cad2 feature cad1_list m) = additions m"
  "modifications (removals_step cad2 feature cad1_list m) = modifications m"
  by (simp_all add: removals_step_def split: option.splits)

lemma additions_step_lookup:
  "map_of (additions (additions_step cad1 feature ts m)) T =
     (if T = feature then
        (case map_of cad1 T of
           None \<Rightarrow> Some ts
         | Some bs \<Rightarrow> if length bs < length ts then Some (drop (length bs) ts)
                      else map_of (additions m) T)
      else map_of (additions m) T)"
  by (simp add: additions_step_def Let_def map_of_dict_set split: option.splits)

lemma modifications_step_lookup:
  "map_of (modifications (additions_step cad1 feature ts m)) T =
     (if T = feature then
        (case map_of cad1 T of
           None \<Rightarrow> map_of (modifications m) T
         | Some bs \<Rightarrow> if feature_modifications_loop (zip ts bs) [] \<noteq> []
                      then Some (feature_modifications_loop (zip ts bs) [])
                      else map_of (modifications m) T)
      else map_of (modifications m) T)"
  by (simp add: additions_step_def Let_def map_of_dict_set split: option.splits)

lemma removals_step_lookup:
  "map_of (removals (removals_step cad2 feature bs m)) T =
     (if T = feature then
        (case map_of cad2 T of
           None \<Rightarrow> Some bs
         | Some ts \<Rightarrow> if length ts < length bs then Some (drop (length ts) bs)
                      else map_of (removals m) T)
      else map_of (removals m) T)"
  by (simp add: removals_step_def map_of_dict_set split: option.splits)

lemma additions_fold_removals [simp]:
  "removals (foldl (\<lambda>m (feature, cad2_list). additions_step cad1 feature cad2_list m) m items)
     = removals m"
  by (induction items arbitrary: m) (auto simp: split_def)

lemma removals_fold_additions [simp]:
  "additions (foldl (\<lambda>m (feature, cad1_list). removals_step cad2 feature cad1_list m) m items)
     = additions m"
  "modifications (foldl (\<lambda>m (feature, cad1_list). removals_step cad2 feature cad1_list m) m items)
     = modifications m"
  by (induction items arbitrary: m) (auto simp: split_def)

lemma additions_fold_lookup:
  "distinct (map fst items) \<Longrightarrow>
   map_of (additions (foldl (\<lambda>m (feature, cad2_list). additions_step cad1 feature cad2_list m)
                        m items)) T =
     (case map_of items T of
        None \<Rightarrow> map_of (additions m) T
      | Some ts \<Rightarrow>
          (case map_of cad1 T of
             None \<Rightarrow> Some ts
           | Some bs \<Rightarrow> if length bs < length ts then Some (drop (length bs) ts)
                        else map_of (additions m) T))"
proof (induction items arbitrary: m T)
  case Nil
  then show ?case by simp
next
  case (Cons p items)
  obtain feature ts where p: "p = (feature, ts)" by (cases p)
  from Cons.prems p have fresh: "map_of items feature = None" and d: "distinct (map fst items)"
    by (auto simp: map_of_eq_None_iff)
  show ?case
  proof (cases "T = feature")
    case True
    with fresh p show ?thesis
      by (simp add: Cons.IH [OF d] additions_step_lookup split: option.splits)
  next
    case False
    with p show ?thesis
      by (simp add: Cons.IH [OF d] additions_step_lookup split: option.splits)
  qed
qed

lemma modifications_fold_lookup:
  "distinct (map fst items) \<Longrightarrow>
   map_of (modifications (foldl (\<lambda>m (feature, cad2_list). additions_step cad1 feature cad2_list m)
                            m items)) T =
     (case map_of items T of
        None \<Rightarrow> map_of (modifications m) T
      | Some ts \<Rightarrow>
          (case map_of cad1 T of
             None \<Rightarrow> map_of (modifications m) T
           | Some bs \<Rightarrow> if feature_modifications_loop (zip ts bs) [] \<noteq> []
                        then Some (feature_modifications_loop (zip ts bs) [])
                        else map_of (modifications m) T))"
proof (induction items arbitrary: m T)
  case Nil
  then show ?case by simp
next
  case (Cons p items)
  obtain feature ts where p: "p = (feature, ts)" by (cases p)
  from Cons.prems p have fresh: "map_of items feature = None" and d: "distinct (map fst items)"
    by (auto simp: map_of_eq_None_iff)
  show ?case
  proof (cases "T = feature")
    case True
    with fresh p show ?thesis
      by (simp add: Cons.IH [OF d] modifications_step_lookup split: option.splits)
  next
    case False
    with p show ?thesis
      by (simp add: Cons.IH [OF d] modifications_step_lookup split: option.splits)
  qed
qed

lemma removals_fold_lookup:
  "distinct (map fst items) \<Longrightarrow>
   map_of (removals (foldl (\<lambda>m (feature, cad1_list). removals_step cad2 feature cad1_list m)
                       m items)) T =
     (case map_of items T of
        None \<Rightarrow> map_of (removals m) T
      | Some bs \<Rightarrow>
          (case map_of cad2 T of
             None \<Rightarrow> Some bs
           | Some ts \<Rightarrow> if length ts < length bs then Some (drop (length ts) bs)
                        else map_of (removals m) T))"
proof (induction items arbitrary: m T)
  case Nil
  then show ?case by simp
next
  case (Cons p items)
  obtain feature bs where p: "p = (feature, bs)" by (cases p)
  from Cons.prems p have fresh: "map_of items feature = None" and d: "distinct (map fst items)"
    by (auto simp: map_of_eq_None_iff)
  show ?case
  proof (cases "T = feature")
    case True
    with fresh p show ?thesis
      by (simp add: Cons.IH [OF d] removals_step_lookup split: option.splits)
  next
    case False
    with p show ?thesis
      by (simp add: Cons.IH [OF d] removals_step_lookup split: option.splits)
  qed
qed

text \<open>The report for two dicts, looked up by tag.\<close>

lemma compare_features_lookup:
  assumes "distinct (map fst cad1)" and "distinct (map fst cad2)"
  shows "\<exists>r. compare_features cad1 cad2 = Inr r \<and>
     map_of (additions r) T =
       (case map_of cad2 T of
          None \<Rightarrow> None
        | Some ts \<Rightarrow>
            (case map_of cad1 T of
               None \<Rightarrow> Some ts
             | Some bs \<Rightarrow> if length bs < length ts then Some (drop (length bs) ts) else None)) \<and>
     map_of (modifications r) T =
       (case map_of cad2 T of
          None \<Rightarrow> None
        | Some ts \<Rightarrow>
            (case map_of cad1 T of
               None \<Rightarrow> None
             | Some bs \<Rightarrow> if feature_modifications_loop (zip ts bs) [] \<noteq> []
                          then Some (feature_modifications_loop (zip ts bs) []) else None)) \<and>
     map_of (removals r) T =
       (case map_of cad1 T of
          None \<Rightarrow> None
        | Some bs \<Rightarrow>
            (case map_of cad2 T of
               None \<Rightarrow> Some bs
             | Some ts \<Rightarrow> if length ts < length bs then Some (drop (length ts) bs) else None))"
  by (simp add: compare_features_def additions_loop_foldl [OF assms(2)]
        removals_loop_foldl [OF assms(1)] additions_fold_lookup [OF assms(2)]
        modifications_fold_lookup [OF assms(2)] removals_fold_lookup [OF assms(1)]
        split: option.splits)

section \<open>Additions and removals\<close>

lemmas cmp_defs =
  compare_features_def dict_contains_def dict_index_def dict_get_def float_eq_def

text \<open>
  C6: for two collections that are dicts, and any tag. A tag only in the target has
  its whole list under \<open>additions\<close> and is a key of neither \<open>modifications\<close> nor
  \<open>removals\<close>; a tag only in the baseline has its whole list under \<open>removals\<close>; for
  a tag in both, the records of the longer list beyond the length of the shorter
  one are the additions when the target is longer and the removals when the
  baseline is longer.
\<close>

theorem compare_features_whole_tag_surplus:
  assumes "distinct (map fst cad1)" and "distinct (map fst cad2)"
  shows "\<exists>r. compare_features cad1 cad2 = Inr r \<and>
     (\<forall>ts. map_of cad2 T = Some ts \<and> map_of cad1 T = None \<longrightarrow>
        map_of (additions r) T = Some ts \<and> map_of (modifications r) T = None \<and>
        map_of (removals r) T = None) \<and>
     (\<forall>bs. map_of cad1 T = Some bs \<and> map_of cad2 T = None \<longrightarrow>
        map_of (removals r) T = Some bs) \<and>
     (\<forall>bs ts. map_of cad1 T = Some bs \<and> map_of cad2 T = Some ts \<longrightarrow>
        (length bs < length ts \<longrightarrow> map_of (additions r) T = Some (drop (length bs) ts)) \<and>
        (length ts < length bs \<longrightarrow> map_of (removals r) T = Some (drop (length ts) bs)))"
proof -
  from compare_features_lookup [OF assms, of T] obtain r where
    r: "compare_features cad1 cad2 = Inr r"
    and a: "map_of (additions r) T =
       (case map_of cad2 T of
          None \<Rightarrow> None
        | Some ts \<Rightarrow>
            (case map_of cad1 T of
               None \<Rightarrow> Some ts
             | Some bs \<Rightarrow> if length bs < length ts then Some (drop (length bs) ts) else None))"
    and m: "map_of (modifications r) T =
       (case map_of cad2 T of
          None \<Rightarrow> None
        | Some ts \<Rightarrow>
            (case map_of cad1 T of
               None \<Rightarrow> None
             | Some bs \<Rightarrow> if feature_modifications_loop (zip ts bs) [] \<noteq> []
                          then Some (feature_modifications_loop (zip ts bs) []) else None))"
    and d: "map_of (removals r) T =
       (case map_of cad1 T of
          None \<Rightarrow> None
        | Some bs \<Rightarrow>
            (case map_of cad2 T of
               None \<Rightarrow> Some bs
             | Some ts \<Rightarrow> if length ts < length bs then Some (drop (length ts) bs) else None))"
    by blast
  have only_target: "map_of (additions r) T = Some ts \<and> map_of (modifications r) T = None \<and>
        map_of (removals r) T = None"
    if "map_of cad2 T = Some ts" "map_of cad1 T = None" for ts
    using that a m d by simp
  have only_base: "map_of (removals r) T = Some bs"
    if "map_of cad1 T = Some bs" "map_of cad2 T = None" for bs
    using that d by simp
  have both: "(length bs < length ts \<longrightarrow> map_of (additions r) T = Some (drop (length bs) ts)) \<and>
        (length ts < length bs \<longrightarrow> map_of (removals r) T = Some (drop (length ts) bs))"
    if "map_of cad1 T = Some bs" "map_of cad2 T = Some ts" for bs ts
    using that a d by simp
  from r only_target only_base both show ?thesis by blast
qed

theorem compare_features_whole_tag_surplus_witness:
  "compare_features base_ex target_ex =
     Inr \<lparr>additions = [(''GROW'', [[(''Name'', Text ''G2'')]]),
                       (''ONLY_TARGET'', [[(''Name'', Text ''T1'')], [(''Name'', Text ''T2'')]])],
          modifications = [],
          removals = [(''ONLY_BASE'', [[(''Name'', Text ''B1'')]]),
                      (''SHRINK'', [[(''Name'', Text ''S2'')]])]\<rparr>
   \<and> (\<exists>r. compare_features base_ex target_ex = Inr r \<and>
        map_of (additions r) ''ONLY_TARGET'' =
          Some [[(''Name'', Text ''T1'')], [(''Name'', Text ''T2'')]] \<and>
        map_of (modifications r) ''ONLY_TARGET'' = None \<and>
        map_of (removals r) ''ONLY_TARGET'' = None \<and>
        map_of (removals r) ''ONLY_BASE'' = Some [[(''Name'', Text ''B1'')]] \<and>
        map_of (additions r) ''GROW'' = Some [[(''Name'', Text ''G2'')]] \<and>
        map_of (removals r) ''SHRINK'' = Some [[(''Name'', Text ''S2'')]])"
proof -
  have d1: "distinct (map fst base_ex)" by (simp add: base_ex_def)
  have d2: "distinct (map fst target_ex)" by (simp add: target_ex_def)
  have b: "map_of base_ex ''ONLY_TARGET'' = None"
    "map_of base_ex ''ONLY_BASE'' = Some [[(''Name'', Text ''B1'')]]"
    "map_of base_ex ''GROW'' = Some [[(''Name'', Text ''G1'')]]"
    "map_of base_ex ''SHRINK'' = Some [[(''Name'', Text ''S1'')], [(''Name'', Text ''S2'')]]"
    by (simp_all add: base_ex_def)
  have t: "map_of target_ex ''ONLY_TARGET'' =
      Some [[(''Name'', Text ''T1'')], [(''Name'', Text ''T2'')]]"
    "map_of target_ex ''ONLY_BASE'' = None"
    "map_of target_ex ''GROW'' = Some [[(''Name'', Text ''G1'')], [(''Name'', Text ''G2'')]]"
    "map_of target_ex ''SHRINK'' = Some [[(''Name'', Text ''S1'')]]"
    by (simp_all add: target_ex_def)
  have h: "compare_features base_ex target_ex =
     Inr \<lparr>additions = [(''GROW'', [[(''Name'', Text ''G2'')]]),
                       (''ONLY_TARGET'', [[(''Name'', Text ''T1'')], [(''Name'', Text ''T2'')]])],
          modifications = [],
          removals = [(''ONLY_BASE'', [[(''Name'', Text ''B1'')]]),
                      (''SHRINK'', [[(''Name'', Text ''S2'')]])]\<rparr>"
    by (simp add: base_ex_def target_ex_def cmp_defs)
  from compare_features_whole_tag_surplus [OF d1 d2, of "''ONLY_TARGET''"]
    compare_features_whole_tag_surplus [OF d1 d2, of "''ONLY_BASE''"]
    compare_features_whole_tag_surplus [OF d1 d2, of "''GROW''"]
    compare_features_whole_tag_surplus [OF d1 d2, of "''SHRINK''"]
  have "\<exists>r. compare_features base_ex target_ex = Inr r \<and>
        map_of (additions r) ''ONLY_TARGET'' =
          Some [[(''Name'', Text ''T1'')], [(''Name'', Text ''T2'')]] \<and>
        map_of (modifications r) ''ONLY_TARGET'' = None \<and>
        map_of (removals r) ''ONLY_TARGET'' = None \<and>
        map_of (removals r) ''ONLY_BASE'' = Some [[(''Name'', Text ''B1'')]] \<and>
        map_of (additions r) ''GROW'' = Some [[(''Name'', Text ''G2'')]] \<and>
        map_of (removals r) ''SHRINK'' = Some [[(''Name'', Text ''S2'')]]"
    unfolding b t by auto
  with h show ?thesis by blast
qed

text \<open>
  C7: for two collections that are dicts, when the target's list under a tag is the
  baseline's list (empty when the baseline lacks the tag) followed by one more
  record, that record is what \<open>additions\<close> holds under the tag, and what \<open>removals\<close>
  holds under it when the two collections are swapped.
\<close>

theorem compare_features_surplus_swap:
  assumes "distinct (map fst cad1)" and "distinct (map fst cad2)"
    and "dict_get cad1 T [] = bs" and "map_of cad2 T = Some (bs @ [s])"
  shows "\<exists>r r'. compare_features cad1 cad2 = Inr r \<and> compare_features cad2 cad1 = Inr r' \<and>
           map_of (additions r) T = Some [s] \<and> map_of (removals r') T = Some [s]"
proof -
  from compare_features_lookup [OF assms(1,2), of T] obtain r where
    r: "compare_features cad1 cad2 = Inr r"
    and a: "map_of (additions r) T =
       (case map_of cad2 T of
          None \<Rightarrow> None
        | Some ts \<Rightarrow>
            (case map_of cad1 T of
               None \<Rightarrow> Some ts
             | Some bs \<Rightarrow> if length bs < length ts then Some (drop (length bs) ts) else None))"
    by blast
  from compare_features_lookup [OF assms(2,1), of T] obtain r' where
    r': "compare_features cad2 cad1 = Inr r'"
    and d: "map_of (removals r') T =
       (case map_of cad2 T of
          None \<Rightarrow> None
        | Some bs \<Rightarrow>
            (case map_of cad1 T of
               None \<Rightarrow> Some bs
             | Some ts \<Rightarrow> if length ts < length bs then Some (drop (length ts) bs) else None))"
    by blast
  from a d assms(3,4) have "map_of (additions r) T = Some [s] \<and> map_of (removals r') T = Some [s]"
    by (auto simp: dict_get_def split: option.splits)
  with r r' show ?thesis by blast
qed

theorem compare_features_surplus_swap_witness:
  "\<exists>r r'. compare_features base_ex target_ex = Inr r \<and>
          compare_features target_ex base_ex = Inr r' \<and>
          map_of (additions r) ''GROW'' = Some [[(''Name'', Text ''G2'')]] \<and>
          map_of (removals r') ''GROW'' = Some [[(''Name'', Text ''G2'')]]"
proof -
  have d1: "distinct (map fst base_ex)" by (simp add: base_ex_def)
  have d2: "distinct (map fst target_ex)" by (simp add: target_ex_def)
  have b: "dict_get base_ex ''GROW'' [] = [[(''Name'', Text ''G1'')]]"
    by (simp add: base_ex_def dict_get_def)
  have t: "map_of target_ex ''GROW'' = Some ([[(''Name'', Text ''G1'')]] @ [[(''Name'', Text ''G2'')]])"
    by (simp add: target_ex_def)
  from compare_features_surplus_swap [OF d1 d2 b t] show ?thesis .
qed

section \<open>Field changes\<close>


lemma feature_modifications_concat:
  "feature_modifications_loop pairs acc = acc @ concat (map modification_entry pairs)"
  by (induction pairs arbitrary: acc)
     (auto simp: modification_entry_def dict_get_def Let_def split: option.splits)



section \<open>A collection compared with itself\<close>

lemma value_eq_refl: "nan_free v \<Longrightarrow> value_eq v v"
  by (cases v) (auto simp: float_eq_def)

lemma changed_fields_unchanged:
  "\<forall>kv \<in> set items. map_of b (fst kv) = Some (snd kv) \<and> nan_free (snd kv) \<Longrightarrow>
     changed_fields_loop b items acc = acc"
  by (induction items arbitrary: acc) (auto simp: value_eq_refl)

lemma changed_fields_same:
  assumes "distinct (map fst t)" and "list_all (\<lambda>kv. nan_free (snd kv)) t"
  shows "changed_fields_loop t t [] = []"
proof (rule changed_fields_unchanged)
  show "\<forall>kv \<in> set t. map_of t (fst kv) = Some (snd kv) \<and> nan_free (snd kv)"
    using assms by (auto simp: list_all_iff)
qed

lemma feature_modifications_same:
  assumes "list_all (\<lambda>r. distinct (map fst r)) ts"
    and "list_all (list_all (\<lambda>kv. nan_free (snd kv))) ts"
  shows "feature_modifications_loop (zip ts ts) [] = []"
proof -
  have "modification_entry (t, t) = []" if "t \<in> set ts" for t
    using that assms by (simp add: modification_entry_def changed_fields_same list_all_iff)
  then show ?thesis
    by (simp add: feature_modifications_concat zip_same_conv_map)
qed

text \<open>
  C2, amended: a collection that is a dict of lists of dicts and holds no NaN
  (neither as a number nor as a coordinate of a point), compared with itself, gives
  the report with no additions, no modifications and no removals.
\<close>

theorem compare_features_self:
  assumes "features_wf X" and "features_nan_free X"
  shows "compare_features X X = Inr \<lparr>additions = [], modifications = [], removals = []\<rparr>"
proof -
  from assms(1) have d: "distinct (map fst X)"
    by (simp add: features_wf_def)
  obtain r where r: "compare_features X X = Inr r"
    using compare_features_returns by blast
  have same: "feature_modifications_loop (zip ts ts) [] = []" if "map_of X T = Some ts" for T ts
  proof -
    from that have "(T, ts) \<in> set X" by (rule map_of_SomeD)
    with assms have "list_all (\<lambda>r. distinct (map fst r)) ts"
      and "list_all (list_all (\<lambda>kv. nan_free (snd kv))) ts"
      by (auto simp: features_wf_def features_nan_free_def list_all_iff)
    then show ?thesis by (rule feature_modifications_same)
  qed
  have "map_of (additions r) T = None \<and> map_of (modifications r) T = None \<and>
        map_of (removals r) T = None" for T
    using compare_features_lookup [OF d d, of T] r same [of T]
    by (auto split: option.splits)
  then have "map_of (additions r) = Map.empty" "map_of (modifications r) = Map.empty"
    "map_of (removals r) = Map.empty"
    by (simp_all add: fun_eq_iff)
  then have "additions r = []" "modifications r = []" "removals r = []"
    by simp_all
  then have "r = \<lparr>additions = [], modifications = [], removals = []\<rparr>"
    by simp
  with r show ?thesis by simp
qed

theorem compare_features_self_witness:
  "features_wf part_ex \<and> features_nan_free part_ex \<and>
   compare_features part_ex part_ex = Inr \<lparr>additions = [], modifications = [], removals = []\<rparr>"
proof -
  have w: "features_wf part_ex"
    by (simp add: part_ex_def features_wf_def)
  have n: "features_nan_free part_ex"
    by (simp add: part_ex_def features_nan_free_def)
  from w n compare_features_self [OF w n] show ?thesis by blast
qed

text \<open>
  The claim as stated fails on a NaN: the document whose only attribute reads
  \<open>nan\<close> is extracted to a collection whose comparison with itself reports a
  modification, because \<open>cad1_detail[key] != value\<close> holds for a NaN.
\<close>

theorem compare_features_self_nan:
  "extract_features float_lit doc_nan = Inr features_nan \<and> features_wf features_nan \<and>
   compare_features features_nan features_nan =
     Inr \<lparr>additions = [],
          modifications =
            [(''HOLE'', [\<lparr>name = Text ''Unknown'',
                          fields' = [(''Diameter'', \<lparr>old = Number NaN, new = Number NaN\<rparr>)]\<rparr>])],
          removals = []\<rparr>"
  by (simp add: doc_nan_def features_nan_def features_wf_def run_defs cmp_defs)

section \<open>Empty lists in the report\<close>

lemma additions_step_distinct:
  assumes "distinct (map fst (additions m))"
  shows "distinct (map fst (additions (additions_step cad1 feature ts m)))"
proof (cases "map_of cad1 feature")
  case None
  with assms show ?thesis
    by (simp add: additions_step_def distinct_dict_set)
next
  case (Some bs)
  with assms show ?thesis
    by (simp add: additions_step_def Let_def distinct_dict_set)
qed

lemma modifications_step_distinct:
  assumes "distinct (map fst (modifications m))"
  shows "distinct (map fst (modifications (additions_step cad1 feature ts m)))"
proof (cases "map_of cad1 feature")
  case None
  with assms show ?thesis
    by (simp add: additions_step_def)
next
  case (Some bs)
  with assms show ?thesis
    by (simp add: additions_step_def Let_def distinct_dict_set)
qed

lemma removals_step_distinct:
  assumes "distinct (map fst (removals m))"
  shows "distinct (map fst (removals (removals_step cad2 feature bs m)))"
proof (cases "map_of cad2 feature")
  case None
  with assms show ?thesis
    by (simp add: removals_step_def distinct_dict_set)
next
  case (Some ts)
  with assms show ?thesis
    by (simp add: removals_step_def distinct_dict_set)
qed

lemma additions_fold_distinct:
  "distinct (map fst (additions m)) \<Longrightarrow>
   distinct (map fst (additions
      (foldl (\<lambda>m (feature, cad2_list). additions_step cad1 feature cad2_list m) m items)))"
proof (induction items arbitrary: m)
  case Nil
  then show ?case by simp
next
  case (Cons p items)
  obtain feature ts where p: "p = (feature, ts)" by (cases p)
  from Cons.IH [OF additions_step_distinct [OF Cons.prems, of cad1 feature ts]] p
  show ?case by simp
qed

lemma modifications_fold_distinct:
  "distinct (map fst (modifications m)) \<Longrightarrow>
   distinct (map fst (modifications
      (foldl (\<lambda>m (feature, cad2_list). additions_step cad1 feature cad2_list m) m items)))"
proof (induction items arbitrary: m)
  case Nil
  then show ?case by simp
next
  case (Cons p items)
  obtain feature ts where p: "p = (feature, ts)" by (cases p)
  from Cons.IH [OF modifications_step_distinct [OF Cons.prems, of cad1 feature ts]] p
  show ?case by simp
qed

lemma removals_fold_distinct:
  "distinct (map fst (removals m)) \<Longrightarrow>
   distinct (map fst (removals
      (foldl (\<lambda>m (feature, cad1_list). removals_step cad2 feature cad1_list m) m items)))"
proof (induction items arbitrary: m)
  case Nil
  then show ?case by simp
next
  case (Cons p items)
  obtain feature bs where p: "p = (feature, bs)" by (cases p)
  from Cons.IH [OF removals_step_distinct [OF Cons.prems, of cad2 feature bs]] p
  show ?case by simp
qed

lemma compare_features_distinct:
  assumes "distinct (map fst cad1)" and "distinct (map fst cad2)"
    and "compare_features cad1 cad2 = Inr r"
  shows "distinct (map fst (additions r)) \<and> distinct (map fst (modifications r)) \<and>
         distinct (map fst (removals r))"
proof -
  let ?m0 = "\<lparr>additions = [], modifications = [], removals = []\<rparr>"
  let ?m1 = "foldl (\<lambda>m (feature, cad2_list). additions_step cad1 feature cad2_list m) ?m0 cad2"
  from assms(3) have r: "r = foldl (\<lambda>m (feature, cad1_list).
      removals_step cad2 feature cad1_list m) ?m1 cad1"
    by (simp add: compare_features_def additions_loop_foldl [OF assms(2)]
          removals_loop_foldl [OF assms(1)])
  have a: "distinct (map fst (additions ?m1))"
    by (rule additions_fold_distinct) simp
  have m: "distinct (map fst (modifications ?m1))"
    by (rule modifications_fold_distinct) simp
  have "distinct (map fst (removals ?m1))" by simp
  then have "distinct (map fst (removals r))"
    unfolding r by (rule removals_fold_distinct)
  with a m show ?thesis unfolding r by simp
qed

lemma compare_features_lookup_of:
  assumes "distinct (map fst cad1)" and "distinct (map fst cad2)"
    and "compare_features cad1 cad2 = Inr r"
  shows "map_of (additions r) T =
       (case map_of cad2 T of
          None \<Rightarrow> None
        | Some ts \<Rightarrow>
            (case map_of cad1 T of
               None \<Rightarrow> Some ts
             | Some bs \<Rightarrow> if length bs < length ts then Some (drop (length bs) ts) else None))"
    and "map_of (modifications r) T =
       (case map_of cad2 T of
          None \<Rightarrow> None
        | Some ts \<Rightarrow>
            (case map_of cad1 T of
               None \<Rightarrow> None
             | Some bs \<Rightarrow> if feature_modifications_loop (zip ts bs) [] \<noteq> []
                          then Some (feature_modifications_loop (zip ts bs) []) else None))"
    and "map_of (removals r) T =
       (case map_of cad1 T of
          None \<Rightarrow> None
        | Some bs \<Rightarrow>
            (case map_of cad2 T of
               None \<Rightarrow> Some bs
             | Some ts \<Rightarrow> if length ts < length bs then Some (drop (length ts) bs) else None))"
proof -
  from compare_features_lookup [OF assms(1,2), of T] obtain r' where
    "compare_features cad1 cad2 = Inr r'"
    and l: "map_of (additions r') T =
       (case map_of cad2 T of
          None \<Rightarrow> None
        | Some ts \<Rightarrow>
            (case map_of cad1 T of
               None \<Rightarrow> Some ts
             | Some bs \<Rightarrow> if length bs < length ts then Some (drop (length bs) ts) else None))"
      "map_of (modifications r') T =
       (case map_of cad2 T of
          None \<Rightarrow> None
        | Some ts \<Rightarrow>
            (case map_of cad1 T of
               None \<Rightarrow> None
             | Some bs \<Rightarrow> if feature_modifications_loop (zip ts bs) [] \<noteq> []
                          then Some (feature_modifications_loop (zip ts bs) []) else None))"
      "map_of (removals r') T =
       (case map_of cad1 T of
          None \<Rightarrow> None
        | Some bs \<Rightarrow>
            (case map_of cad2 T of
               None \<Rightarrow> Some bs
             | Some ts \<Rightarrow> if length ts < length bs then Some (drop (length ts) bs) else None))"
    by blast
  with assms(3) have "r' = r" by simp
  with l show
    "map_of (additions r) T =
       (case map_of cad2 T of
          None \<Rightarrow> None
        | Some ts \<Rightarrow>
            (case map_of cad1 T of
               None \<Rightarrow> Some ts
             | Some bs \<Rightarrow> if length bs < length ts then Some (drop (length bs) ts) else None))"
    "map_of (modifications r) T =
       (case map_of cad2 T of
          None \<Rightarrow> None
        | Some ts \<Rightarrow>
            (case map_of cad1 T of
               None \<Rightarrow> None
             | Some bs \<Rightarrow> if feature_modifications_loop (zip ts bs) [] \<noteq> []
                          then Some (feature_modifications_loop (zip ts bs) []) else None))"
    "map_of (removals r) T =
       (case map_of cad1 T of
          None \<Rightarrow> None
        | Some bs \<Rightarrow>
            (case map_of cad2 T of
               None \<Rightarrow> Some bs
             | Some ts \<Rightarrow> if length ts < length bs then Some (drop (length ts) bs) else None))"
    by simp_all
qed

text \<open>
  C10, amended: in the report of two collections that are dicts, no tag maps to an
  empty list of modification entries, and a tag maps to an empty list of added
  (removed) records only when the baseline (target) lacks the tag and the target
  (baseline) holds the empty list under it. So no tag maps to an empty list when no
  tag of either collection does.
\<close>

theorem compare_features_empty_lists:
  assumes "distinct (map fst cad1)" and "distinct (map fst cad2)"
    and "compare_features cad1 cad2 = Inr r"
  shows "(\<forall>T. (T, []) \<notin> set (modifications r) \<and>
          ((T, []) \<in> set (additions r) \<longrightarrow> \<not> dict_contains cad1 T \<and> (T, []) \<in> set cad2) \<and>
          ((T, []) \<in> set (removals r) \<longrightarrow> \<not> dict_contains cad2 T \<and> (T, []) \<in> set cad1)) \<and>
     (list_all (\<lambda>e. snd e \<noteq> []) cad1 \<and> list_all (\<lambda>e. snd e \<noteq> []) cad2 \<longrightarrow>
        list_all (\<lambda>e. snd e \<noteq> []) (additions r) \<and>
        list_all (\<lambda>e. snd e \<noteq> []) (modifications r) \<and>
        list_all (\<lambda>e. snd e \<noteq> []) (removals r))"
proof -
  note r = assms(3)
  from compare_features_distinct [OF assms] have
    da: "distinct (map fst (additions r))" and dm: "distinct (map fst (modifications r))"
    and dr: "distinct (map fst (removals r))"
    by simp_all
  have mods: "(T, []) \<notin> set (modifications r)" for T
  proof
    assume "(T, []) \<in> set (modifications r)"
    with dm have "map_of (modifications r) T = Some []" by simp
    with compare_features_lookup_of(2) [OF assms, of T] show False
      by (simp split: option.splits if_splits)
  qed
  have adds: "\<not> dict_contains cad1 T \<and> (T, []) \<in> set cad2"
    if "(T, []) \<in> set (additions r)" for T
  proof -
    from that da have "map_of (additions r) T = Some []" by simp
    with compare_features_lookup_of(1) [OF assms, of T]
    have "map_of cad1 T = None \<and> map_of cad2 T = Some []"
      by (simp split: option.splits if_splits)
    then show ?thesis
      by (simp add: dict_contains_iff map_of_SomeD)
  qed
  have rems: "\<not> dict_contains cad2 T \<and> (T, []) \<in> set cad1"
    if "(T, []) \<in> set (removals r)" for T
  proof -
    from that dr have "map_of (removals r) T = Some []" by simp
    with compare_features_lookup_of(3) [OF assms, of T]
    have "map_of cad2 T = None \<and> map_of cad1 T = Some []"
      by (simp split: option.splits if_splits)
    then show ?thesis
      by (simp add: dict_contains_iff map_of_SomeD)
  qed
  have full: "list_all (\<lambda>e. snd e \<noteq> []) (additions r) \<and>
        list_all (\<lambda>e. snd e \<noteq> []) (modifications r) \<and>
        list_all (\<lambda>e. snd e \<noteq> []) (removals r)"
    if "list_all (\<lambda>e. snd e \<noteq> []) cad1" "list_all (\<lambda>e. snd e \<noteq> []) cad2"
  proof -
    have "snd e \<noteq> []" if "e \<in> set (additions r)" for e
    proof
      assume "snd e = []"
      with that have "(fst e, []) \<in> set (additions r)" by (metis prod.collapse)
      from adds [OF this] \<open>list_all (\<lambda>e. snd e \<noteq> []) cad2\<close> show False
        by (auto simp: list_all_iff)
    qed
    moreover have "snd e \<noteq> []" if "e \<in> set (modifications r)" for e
    proof
      assume "snd e = []"
      with that have "(fst e, []) \<in> set (modifications r)" by (metis prod.collapse)
      with mods show False by blast
    qed
    moreover have "snd e \<noteq> []" if "e \<in> set (removals r)" for e
    proof
      assume "snd e = []"
      with that have "(fst e, []) \<in> set (removals r)" by (metis prod.collapse)
      from rems [OF this] \<open>list_all (\<lambda>e. snd e \<noteq> []) cad1\<close> show False
        by (auto simp: list_all_iff)
    qed
    ultimately show ?thesis by (simp add: list_all_iff)
  qed
  from mods adds rems have "\<forall>T. (T, []) \<notin> set (modifications r) \<and>
          ((T, []) \<in> set (additions r) \<longrightarrow> \<not> dict_contains cad1 T \<and> (T, []) \<in> set cad2) \<and>
          ((T, []) \<in> set (removals r) \<longrightarrow> \<not> dict_contains cad2 T \<and> (T, []) \<in> set cad1)"
    by blast
  with full show ?thesis by blast
qed

theorem compare_features_empty_lists_witness:
  "(compare_features [] [(''A'', [])] =
      Inr \<lparr>additions = [(''A'', [])], modifications = [], removals = []\<rparr> \<and>
    (''A'', []) \<in> set (additions \<lparr>additions = [(''A'', [])], modifications = [],
                                     removals = []\<rparr>) \<and>
    \<not> dict_contains ([] :: features) ''A'' \<and>
    (''A'', []) \<in> set ([(''A'', [])] :: features))
   \<and> (\<exists>r. compare_features base_ex target_ex = Inr r \<and>
         list_all (\<lambda>e. snd e \<noteq> []) base_ex \<and> list_all (\<lambda>e. snd e \<noteq> []) target_ex \<and>
         list_all (\<lambda>e. snd e \<noteq> []) (additions r) \<and>
         list_all (\<lambda>e. snd e \<noteq> []) (modifications r) \<and>
         list_all (\<lambda>e. snd e \<noteq> []) (removals r))"
proof -
  have e: "compare_features [] [(''A'', [])] =
      Inr \<lparr>additions = [(''A'', [])], modifications = [], removals = []\<rparr>"
    by (simp add: cmp_defs)
  have d0: "distinct (map fst ([] :: features))"
    and dA: "distinct (map fst ([(''A'', [])] :: features))"
    by simp_all
  have mem: "(''A'', []) \<in> set (additions \<lparr>additions = [(''A'', [])], modifications = [],
                                     removals = []\<rparr>)"
    by simp
  from compare_features_empty_lists [OF d0 dA e] mem have first:
    "\<not> dict_contains ([] :: features) ''A'' \<and> (''A'', []) \<in> set ([(''A'', [])] :: features)"
    by blast
  have d1: "distinct (map fst base_ex)" by (simp add: base_ex_def)
  have d2: "distinct (map fst target_ex)" by (simp add: target_ex_def)
  have n1: "list_all (\<lambda>e. snd e \<noteq> []) base_ex" by (simp add: base_ex_def)
  have n2: "list_all (\<lambda>e. snd e \<noteq> []) target_ex" by (simp add: target_ex_def)
  obtain r where r: "compare_features base_ex target_ex = Inr r"
    using compare_features_returns by blast
  from compare_features_empty_lists [OF d1 d2 r] n1 n2 have
    "list_all (\<lambda>e. snd e \<noteq> []) (additions r) \<and>
     list_all (\<lambda>e. snd e \<noteq> []) (modifications r) \<and>
     list_all (\<lambda>e. snd e \<noteq> []) (removals r)"
    by blast
  with e mem first r n1 n2 show ?thesis by blast
qed

text \<open>
  The claim as stated fails on a tag with an empty list: a tag that only the
  target has is copied to \<open>additions\<close> with its list, and a tag that only the
  baseline has is copied to \<open>removals\<close>, whatever the length of the list.
\<close>

theorem compare_features_empty_list_kept:
  "compare_features [] [(''A'', [])] =
     Inr \<lparr>additions = [(''A'', [])], modifications = [], removals = []\<rparr>
   \<and> compare_features [(''A'', [])] [] =
     Inr \<lparr>additions = [], modifications = [], removals = [(''A'', [])]\<rparr>"
  by (simp add: cmp_defs)

section \<open>The operation parser\<close>

lemma operations_loop_step:
  "operations_loop fl (operation # rest) ops =
     (case operation_details_loop fl (children operation) [] of
        Inl e \<Rightarrow> Inl e
      | Inr od \<Rightarrow> operations_loop fl rest
                    (dict_set ops (tag operation) (dict_get ops (tag operation) [] @ [od])))"
  by (auto simp: dict_index_def dict_get_def dict_contains_iff map_of_dict_set dict_set_twice
        split: sum.splits option.splits)

lemma operation_details_Cons:
  "operation_details_loop fl (a # rest) d =
     (case attribute_value fl a of
        Inl e \<Rightarrow> Inl e
      | Inr v \<Rightarrow> operation_details_loop fl rest (dict_set d (tag a) v))"
  by (simp add: attribute_value_def del: list.set split: sum.splits option.splits)

lemma operation_details_append:
  "operation_details_loop fl (xs @ ys) d =
     (case operation_details_loop fl xs d of
        Inl e \<Rightarrow> Inl e
      | Inr d1 \<Rightarrow> operation_details_loop fl ys d1)"
proof (induction xs arbitrary: d)
  case Nil
  then show ?case by simp
next
  case (Cons a xs)
  then show ?case
    by (simp add: operation_details_Cons del: operation_details_loop.simps split: sum.splits)
qed

lemma operation_details_keep:
  "operation_details_loop fl ys d1 = Inr d \<Longrightarrow> k \<notin> tag ` set ys \<Longrightarrow>
     map_of d k = map_of d1 k"
proof (induction ys arbitrary: d1)
  case Nil
  then show ?case by simp
next
  case (Cons a ys)
  from Cons.prems(2) have k: "k \<noteq> tag a" and rest: "k \<notin> tag ` set ys" by auto
  from Cons.prems(1) obtain v where
    "operation_details_loop fl ys (dict_set d1 (tag a) v) = Inr d"
    by (auto simp: operation_details_Cons simp del: operation_details_loop.simps
          split: sum.splits)
  from Cons.IH [OF this rest] k show ?case
    by (simp add: map_of_dict_set)
qed

lemma operations_loop_records:
  "operations_loop fl cs ops = Inr ops' \<Longrightarrow>
     \<exists>new. dict_get ops' T [] = dict_get ops T [] @ new \<and>
           list_all2 (\<lambda>c d. operation_details_loop fl (children c) [] = Inr d)
             (filter (\<lambda>c. tag c = T) cs) new"
proof (induction cs arbitrary: ops)
  case Nil
  then show ?case by simp
next
  case (Cons c cs)
  from Cons.prems obtain od where od: "operation_details_loop fl (children c) [] = Inr od"
    and rest: "operations_loop fl cs (dict_set ops (tag c) (dict_get ops (tag c) [] @ [od]))
                 = Inr ops'"
    by (auto simp: operations_loop_step simp del: operations_loop.simps split: sum.splits)
  from Cons.IH [OF rest] obtain new where
    new: "dict_get ops' T [] =
            dict_get (dict_set ops (tag c) (dict_get ops (tag c) [] @ [od])) T [] @ new"
    and rel: "list_all2 (\<lambda>c d. operation_details_loop fl (children c) [] = Inr d)
                (filter (\<lambda>c. tag c = T) cs) new"
    by blast
  show ?case
  proof (cases "tag c = T")
    case True
    with new have "dict_get ops' T [] = dict_get ops T [] @ (od # new)"
      by (simp add: dict_get_dict_set)
    moreover from True od rel have
      "list_all2 (\<lambda>c d. operation_details_loop fl (children c) [] = Inr d)
         (filter (\<lambda>c. tag c = T) (c # cs)) (od # new)"
      by simp
    ultimately show ?thesis by blast
  next
    case False
    with new rel show ?thesis
      by (auto simp: dict_get_dict_set)
  qed
qed

lemma parse_cam_xml_records:
  assumes "parse_cam_xml fl doc = Inr ops"
  shows "list_all2 (\<lambda>c d. operation_details_loop fl (children c) [] = Inr d)
           (filter (\<lambda>c. tag c = T) (children doc)) (dict_get ops T [])"
proof -
  from assms have "operations_loop fl (children doc) [] = Inr ops"
    by (simp add: parse_cam_xml_def)
  from operations_loop_records [OF this, of T] show ?thesis
    by (simp add: dict_get_def)
qed

text \<open>
  C4, amended: in a document that \<open>parse_cam_xml\<close> accepts, take an operation and
  the last of its sub-elements with some tag. The operation's record (one of the
  records stored under the operation's tag) holds under that tag: the nested dict
  of the sub-element's children with their trimmed texts when the tag is one of
  \<open>TOOLSTYPELIST\<close>; the float of the trimmed text when the tag is one of the five
  names that are numeric by name; and the trimmed text itself, as a string, for
  every other tag. No value is classified by its shape.
\<close>

theorem parse_cam_xml_leaf_values:
  assumes "parse_cam_xml fl doc = Inr ops"
    and "operation \<in> set (children doc)"
    and "children operation = pre @ a # post"
    and "tag a \<notin> tag ` set post"
  shows "\<exists>d. d \<in> set (dict_get ops (tag operation) []) \<and>
           operation_details_loop fl (children operation) [] = Inr d \<and>
           (if tag a \<in> set TOOLSTYPELIST
            then (\<exists>ti. tool_info_loop (children a) [] = Inr ti \<and>
                       map_of d (tag a) = Some (CamTool ti))
            else (\<exists>raw. etext a = Some raw \<and>
                    (if tag a \<in>
                          set [''Step'', ''SurfaceSpeed'', ''FeedRate'', ''Stock'', ''NoseRadius'']
                     then (\<exists>f. fl (strip raw) = Some f \<and> map_of d (tag a) = Some (CamNumber f))
                     else map_of d (tag a) = Some (CamText (strip raw)))))"
proof -
  from assms(2) have "operation \<in> set (filter (\<lambda>c. tag c = tag operation) (children doc))"
    by simp
  from list_all2_pick [OF parse_cam_xml_records [OF assms(1)] this]
  obtain d where mem: "d \<in> set (dict_get ops (tag operation) [])"
    and d: "operation_details_loop fl (children operation) [] = Inr d"
    by blast
  from d assms(3) obtain d1 where
    tl: "operation_details_loop fl (a # post) d1 = Inr d"
    by (auto simp: operation_details_append simp del: operation_details_loop.simps
          split: sum.splits)
  then obtain v where v: "attribute_value fl a = Inr v"
    and post: "operation_details_loop fl post (dict_set d1 (tag a) v) = Inr d"
    by (auto simp: operation_details_Cons simp del: operation_details_loop.simps
          split: sum.splits)
  from operation_details_keep [OF post assms(4)] have look: "map_of d (tag a) = Some v"
    by (simp add: map_of_dict_set)
  have val: "if tag a \<in> set TOOLSTYPELIST
            then (\<exists>ti. tool_info_loop (children a) [] = Inr ti \<and>
                       map_of d (tag a) = Some (CamTool ti))
            else (\<exists>raw. etext a = Some raw \<and>
                    (if tag a \<in>
                          set [''Step'', ''SurfaceSpeed'', ''FeedRate'', ''Stock'', ''NoseRadius'']
                     then (\<exists>f. fl (strip raw) = Some f \<and> map_of d (tag a) = Some (CamNumber f))
                     else map_of d (tag a) = Some (CamText (strip raw))))"
    using v look unfolding attribute_value_def
    by (auto simp del: list.set split: if_splits sum.splits option.splits)
  from mem d val show ?thesis by blast
qed

lemmas cam_defs =
  parse_cam_xml_def TOOLSTYPELIST_def float_lit_def strip_def isspace_def
  dict_contains_def dict_index_def dict_get_def

theorem parse_cam_xml_leaf_values_witness:
  "parse_cam_xml float_lit doc_cam =
     Inr [(''Drilling'',
           [[(''Name'', CamText ''D1''), (''Depth'', CamText ''3''),
             (''Step'', CamNumber (Finite 5)),
             (''Drill'', CamTool [(''Name'', ''DR1''), (''Diameter'', ''3'')])]])]
   \<and> (\<exists>d. operation_details_loop float_lit (children drilling) [] = Inr d \<and>
            map_of d ''Depth'' = Some (CamText ''3''))
   \<and> (\<exists>d. operation_details_loop float_lit (children drilling) [] = Inr d \<and>
            map_of d ''Step'' = Some (CamNumber (Finite 5)))
   \<and> (\<exists>d. operation_details_loop float_lit (children drilling) [] = Inr d \<and>
            map_of d ''Drill'' = Some (CamTool [(''Name'', ''DR1''), (''Diameter'', ''3'')]))"
proof -
  have h: "parse_cam_xml float_lit doc_cam =
     Inr [(''Drilling'',
           [[(''Name'', CamText ''D1''), (''Depth'', CamText ''3''),
             (''Step'', CamNumber (Finite 5)),
             (''Drill'', CamTool [(''Name'', ''DR1''), (''Diameter'', ''3'')])]])]"
    by (simp add: doc_cam_def drilling_def cam_defs)
  have n: "drilling \<in> set (children doc_cam)"
    by (simp add: doc_cam_def)
  have c1: "children drilling =
      [Element ''Name'' (Some ''D1'') []] @ Element ''Depth'' (Some ''3'') [] #
      [Element ''Step'' (Some '' 5 '') [],
       Element ''Drill'' None
         [Element ''Name'' (Some '' DR1 '') [], Element ''Diameter'' (Some ''3'') []]]"
    by (simp add: drilling_def)
  have c2: "children drilling =
      [Element ''Name'' (Some ''D1'') [], Element ''Depth'' (Some ''3'') []] @
      Element ''Step'' (Some '' 5 '') [] #
      [Element ''Drill'' None
         [Element ''Name'' (Some '' DR1 '') [], Element ''Diameter'' (Some ''3'') []]]"
    by (simp add: drilling_def)
  have c3: "children drilling =
      [Element ''Name'' (Some ''D1'') [], Element ''Depth'' (Some ''3'') [],
       Element ''Step'' (Some '' 5 '') []] @
      Element ''Drill'' None
         [Element ''Name'' (Some '' DR1 '') [], Element ''Diameter'' (Some ''3'') []] # []"
    by (simp add: drilling_def)
  from parse_cam_xml_leaf_values [OF h n c1] have
    depth: "\<exists>d. operation_details_loop float_lit (children drilling) [] = Inr d \<and>
            map_of d ''Depth'' = Some (CamText ''3'')"
    by (auto simp: TOOLSTYPELIST_def strip_def isspace_def)
  from parse_cam_xml_leaf_values [OF h n c2] have
    step: "\<exists>d. operation_details_loop float_lit (children drilling) [] = Inr d \<and>
            map_of d ''Step'' = Some (CamNumber (Finite 5))"
    by (auto simp: TOOLSTYPELIST_def strip_def isspace_def float_lit_def)
  from parse_cam_xml_leaf_values [OF h n c3] have
    drill: "\<exists>d. operation_details_loop float_lit (children drilling) [] = Inr d \<and>
            map_of d ''Drill'' = Some (CamTool [(''Name'', ''DR1''), (''Diameter'', ''3'')])"
    by (auto simp: TOOLSTYPELIST_def strip_def isspace_def)
  from h depth step drill show ?thesis by blast
qed

text \<open>
  The claim as stated fails: the texts \<open>3\<close> and \<open>0 0 1\<close>, which the classification
  of \<open>extract_features\<close> turns into a number and a point, stay strings in the
  record of \<open>parse_cam_xml\<close>; and a text that is no number under a name that is
  numeric by name raises, where the classification would keep it as text.
\<close>

theorem parse_cam_xml_keeps_text:
  "extract_features float_lit doc_depth =
     Inr [(''Drilling'',
           [[(''Depth'', Number (Finite 3)),
             (''Origin'', Point (Finite 0) (Finite 0) (Finite 1))]])]
   \<and> parse_cam_xml float_lit doc_depth =
     Inr [(''Drilling'', [[(''Depth'', CamText ''3''), (''Origin'', CamText ''0 0 1'')]])]
   \<and> classify float_lit ''fast'' = Inr (Text ''fast'')
   \<and> parse_cam_xml float_lit
        (Element ''Machine'' None
           [Element ''Drilling'' None [Element ''Step'' (Some ''fast'') []]]) = Inl ValueError"
  by (simp add: doc_depth_def run_defs cam_defs)

section \<open>Extracted collections\<close>

lemma set_dict_set: "set (dict_set d k v) \<subseteq> insert (k, v) (set d)"
  by (induction d) (auto split: if_splits)

lemma features_loop_wf:
  assumes "features_loop fl cs fs = Inr fs'"
    and "distinct (map fst fs)"
    and "\<forall>e \<in> set fs. snd e \<noteq> [] \<and> (\<forall>r \<in> set (snd e). distinct (map fst r))"
  shows "distinct (map fst fs') \<and>
         (\<forall>e \<in> set fs'. snd e \<noteq> [] \<and> (\<forall>r \<in> set (snd e). distinct (map fst r)))"
  using assms
proof (induction cs arbitrary: fs)
  case Nil
  then show ?case by simp
next
  case (Cons c cs)
  let ?l = "dict_get fs (tag c) []"
  from Cons.prems(1) obtain fd where fd: "extract_details fl (children c) [] = Inr fd"
    and rest: "features_loop fl cs (dict_set fs (tag c) (?l @ [fd])) = Inr fs'"
    by (auto simp: features_loop_step simp del: features_loop.simps split: sum.splits)
  from extract_details_distinct [OF fd] have dfd: "distinct (map fst fd)" by simp
  have old: "\<forall>r \<in> set ?l. distinct (map fst r)"
  proof (cases "map_of fs (tag c)")
    case None
    then show ?thesis by (simp add: dict_get_def)
  next
    case (Some l)
    then have "(tag c, l) \<in> set fs" by (rule map_of_SomeD)
    with Cons.prems(3) Some show ?thesis by (auto simp: dict_get_def)
  qed
  have inv: "\<forall>e \<in> set (dict_set fs (tag c) (?l @ [fd])).
               snd e \<noteq> [] \<and> (\<forall>r \<in> set (snd e). distinct (map fst r))"
  proof
    fix e
    assume "e \<in> set (dict_set fs (tag c) (?l @ [fd]))"
    with set_dict_set [of fs "tag c" "?l @ [fd]"] have "e = (tag c, ?l @ [fd]) \<or> e \<in> set fs"
      by auto
    with Cons.prems(3) old dfd
    show "snd e \<noteq> [] \<and> (\<forall>r \<in> set (snd e). distinct (map fst r))"
      by auto
  qed
  from Cons.IH [OF rest distinct_dict_set [OF Cons.prems(2)] inv] show ?case .
qed

text \<open>
  What \<open>extract_features\<close> returns is a dict of lists of dicts, and none of its
  lists is empty: the hypotheses of the theorems about \<open>compare_features\<close> hold
  for every extracted collection.
\<close>

lemma extract_features_wf:
  assumes "extract_features fl doc = Inr fc"
  shows "features_wf fc \<and> list_all (\<lambda>e. snd e \<noteq> []) fc"
proof -
  from assms have "features_loop fl (children doc) [] = Inr fc"
    by (simp add: extract_features_def)
  from features_loop_wf [OF this] show ?thesis
    by (simp add: features_wf_def list_all_iff)
qed

end
